(* ===== verification/Prelude.thy ===== *)
theory Prelude
  imports Main "HOL-Library.Word" "HOL-Library.Sublist"
begin

text \<open>
  What every component theory shares: the names of the machine integer types, the error
  numbers of the C library the code tests and returns, the collections of facts the proofs
  use, generic lemmas on lists and words, and the interfaces that several components
  implement (a machine with an invariant, a doubling back-off, a table of slots).
\<close>

section \<open>Types and error numbers\<close>

type_synonym u8 = "8 word"
type_synonym u16 = "16 word"
type_synonym u32 = "32 word"

text \<open>
  The error numbers the code returns, negated, or reads from \<open>errno\<close>. A C function that
  returns 0 or \<open>-E\<close> is modelled with result type \<open>errno + unit\<close>: \<open>Inr ()\<close> is 0 and
  \<open>Inl E\<close> is \<open>-E\<close>. \<open>E_OTHER n\<close> stands for a number the code does not name.
\<close>

datatype errno =
    EINVAL | ENOMEM | EMSGSIZE | ENOTCONN | ENODEV | EIO | ENOMSG
  | EAGAIN | EWOULDBLOCK | EINTR | E_OTHER nat

type_synonym status = "errno + unit"

abbreviation success :: status where
  "success \<equiv> Inr ()"

abbreviation failure :: "errno \<Rightarrow> status" where
  "failure e \<equiv> Inl e"

section \<open>Fact collections\<close>

named_theorems op_defs \<open>definitions of the operations, unfolded by the component proofs\<close>
named_theorems inv_intros \<open>preservation facts, one per operation\<close>

section \<open>Lists\<close>

text \<open>The last \<open>n\<close> elements of a list: what a bounded drop-oldest buffer retains.\<close>

definition take_last :: "nat \<Rightarrow> 'a list \<Rightarrow> 'a list" where
  "take_last n xs = drop (length xs - n) xs"

lemma take_last_short [simp]: "length xs \<le> n \<Longrightarrow> take_last n xs = xs"
  by (simp add: take_last_def)

lemma length_take_last [simp]: "length (take_last n xs) = min n (length xs)"
  by (auto simp: take_last_def)

lemma take_last_append_absorb: "take_last n (take_last n xs @ ys) = take_last n (xs @ ys)"
proof (cases "length xs \<le> n")
  case True
  then show ?thesis by simp
next
  case False
  then have "length xs + length ys - n - (length xs - n) = length ys"
    by simp
  then show ?thesis using False
    by (auto simp: take_last_def drop_drop add.commute)
qed

lemma take_last_snoc_full:
  "xs \<noteq> [] \<Longrightarrow> length xs = n \<Longrightarrow> take_last n (xs @ [x]) = tl xs @ [x]"
  by (cases xs) (auto simp: take_last_def)

lemma suffix_take_last: "suffix (take_last n xs) xs"
  by (simp add: take_last_def suffix_drop)

lemma subseq_take_last: "subseq (take_last n xs) xs"
  by (simp add: suffix_take_last suffix_imp_subseq)

lemma subseq_snoc: "subseq xs ys \<Longrightarrow> subseq (xs @ [z]) (ys @ [z])"
  by (rule list_emb_append_mono) auto

lemma subseq_grow: "subseq xs ys \<Longrightarrow> subseq xs (ys @ zs)"
  using list_emb_append2 subseq_order.trans subseq_rev_drop_many by blast

lemma subseq_appendD1: "subseq (xs @ ys) zs \<Longrightarrow> subseq xs zs"
  using subseq_grow [OF subseq_order.order_refl, of xs ys] subseq_order.trans by blast

lemma subseq_in_set: "subseq xs ys \<Longrightarrow> x \<in> set xs \<Longrightarrow> x \<in> set ys"
  using subseq_order.trans subseq_singleton_left by metis

text \<open>Removing one element from the middle of a list keeps it a subsequence.\<close>

lemma subseq_drop_mid: "subseq (xs @ y # zs) ws \<Longrightarrow> subseq (xs @ zs) ws"
  by (meson list_emb_append_mono subseq_Cons' subseq_order.order_refl subseq_order.trans)

text \<open>How many elements have a property, when one of them is replaced.\<close>

lemma count_update:
  "k < length xs \<Longrightarrow>
     length (filter P (xs[k := y])) + (if P (xs ! k) then 1 else 0) =
     length (filter P xs) + (if P y then 1 else 0)"
proof (induction xs arbitrary: k)
  case Nil
  then show ?case by simp
next
  case (Cons x xs)
  then show ?case by (cases k) auto
qed

lemma count_pos: "k < length xs \<Longrightarrow> P (xs ! k) \<Longrightarrow> 0 < length (filter P xs)"
  by (metis length_greater_0_conv filter_empty_conv nth_mem)

section \<open>Words\<close>

lemma unat_Suc_no_wrap: "Suc (unat w) < 2 ^ LENGTH('a) \<Longrightarrow> unat (w + 1) = Suc (unat w)"
  for w :: "'a::len word"
  by (simp add: unat_word_ariths)

lemma unat_pred: "0 < w \<Longrightarrow> unat (w - 1) = unat w - 1"
  for w :: "'a::len word"
  by (metis unat_minus_one word_gt_0)

lemma word_of_unat: "unat w = n \<Longrightarrow> w = word_of_nat n"
  for w :: "'a::len word"
  by auto

lemma unat_ucast_u8: "unat (ucast (w :: u32) :: u8) = unat w mod 256"
  by (simp add: unsigned_ucast_eq unsigned_take_bit_eq take_bit_eq_mod)

lemma unat_u8_less: "unat (w :: u8) < 256"
  using unsigned_less [of w, where ?'a = nat] by simp

lemma unat_u16_less: "unat (w :: u16) < 65536"
  using unsigned_less [of w, where ?'a = nat] by simp

lemma unat_u32_less: "unat (w :: u32) < 4294967296"
  using unsigned_less [of w, where ?'a = nat] by simp

lemma unat_ucast_u32: "unat (ucast (w :: u8) :: u32) = unat w"
proof -
  have "unat w < 2 ^ 32" using unat_u8_less [of w] by simp
  then show ?thesis by (simp add: unsigned_ucast_eq unsigned_take_bit_eq take_bit_eq_mod)
qed

text \<open>Reading a 32-bit word as two's complement: negative from \<open>2 ^ 31\<close> on.\<close>

lemma sint_negative_iff: "sint (w :: u32) < 0 \<longleftrightarrow> 2147483648 \<le> unat w"
proof -
  have sign: "sint w < 0 \<longleftrightarrow> odd (uint w div 2147483648)"
    by (simp only: sint_uint signed_take_bit_negative_iff bit_iff_odd len_bit0 len_num1) simp
  have bound: "0 \<le> uint w" "uint w < 4294967296"
    using unsigned_less [of w, where ?'a = int] by simp_all
  have same: "2147483648 \<le> unat w \<longleftrightarrow> 2147483648 \<le> uint w"
  proof -
    have "int (unat w) = uint w" by simp
    then show ?thesis by linarith
  qed
  show ?thesis
  proof (cases "2147483648 \<le> uint w")
    case True
    then have "uint w div 2147483648 = 1" using bound by (simp add: div_pos_geq)
    then show ?thesis using True sign same by simp
  next
    case False
    then have "uint w div 2147483648 = 0" using bound by simp
    then show ?thesis using False sign same by simp
  qed
qed

lemma word_gt_0_unat: "0 < w \<longleftrightarrow> 0 < unat w"
  for w :: "'a::len word"
  by (simp add: word_less_nat_alt)

section \<open>Machines with an invariant\<close>

text \<open>
  A component that is driven by events: one step function, and an invariant every step
  keeps. The invariant then holds after every sequence of events, in whatever order the
  scheduler and the outside world produce them.
\<close>

locale invariant_machine =
  fixes step :: "'e \<Rightarrow> 's \<Rightarrow> 's"
    and inv :: "'s \<Rightarrow> bool"
  assumes step_inv: "inv s \<Longrightarrow> inv (step e s)"
begin

lemma run_inv: "inv s \<Longrightarrow> inv (fold step es s)"
  by (induction es arbitrary: s) (auto intro: step_inv)

lemma prefix_inv: "inv s \<Longrightarrow> inv (fold step (take n es) s)"
  by (rule run_inv)

end

section \<open>Doubling back-off\<close>

text \<open>
  Three components wait before they try again, with a delay that doubles up to a ceiling:
  the outbound client, the Wi-Fi station retry thread and the LED observer. The interface
  is the successor function on delays; the laws are read off the code's \<open>MIN(d * 2, cap)\<close>.
\<close>

locale doubling_backoff =
  fixes next_delay :: "'d \<Rightarrow> 'd"
    and val :: "'d \<Rightarrow> nat"
    and start :: 'd
    and cap :: nat
  assumes start_pos: "0 < val start"
    and start_le: "val start \<le> cap"
    and next_val: "val d \<le> cap \<Longrightarrow> val (next_delay d) = min (2 * val d) cap"
begin

lemma iterate_val: "val ((next_delay ^^ n) start) = min (2 ^ n * val start) cap"
proof (induction n)
  case 0
  then show ?case using start_le by simp
next
  case (Suc n)
  then have "val ((next_delay ^^ n) start) \<le> cap" by simp
  then have "val ((next_delay ^^ Suc n) start) = min (2 * min (2 ^ n * val start) cap) cap"
    by (simp add: next_val Suc)
  then show ?case by (auto simp: min_def)
qed

lemma iterate_bounds:
  "val start \<le> val ((next_delay ^^ n) start) \<and> val ((next_delay ^^ n) start) \<le> cap"
  using start_le by (simp add: iterate_val min_def)

lemma iterate_mono: "val ((next_delay ^^ n) start) \<le> val ((next_delay ^^ Suc n) start)"
  unfolding iterate_val by (auto simp: min_def)

lemma iterate_reaches_cap: "cap \<le> n \<Longrightarrow> val ((next_delay ^^ n) start) = cap"
proof -
  assume "cap \<le> n"
  also have "n < 2 ^ n" by (rule less_exp)
  also have "2 ^ n \<le> 2 ^ n * val start" using start_pos by simp
  finally show ?thesis by (simp add: iterate_val)
qed

end

section \<open>Tables of slots\<close>

text \<open>
  The sinks of the bridge and the clients of the TCP server are fixed arrays of slots with
  an \<open>active\<close> flag, and both are searched for the first free slot in index order.
  \<open>first_free\<close> is that search (\<open>for (i = 0; i < ARRAY_SIZE(..); i++) if (!active)\<close>).
\<close>

fun first_free :: "('s \<Rightarrow> bool) \<Rightarrow> nat \<Rightarrow> 's list \<Rightarrow> nat option" where
  "first_free act i [] = None"
| "first_free act i (s # ss) = (if \<not> act s then Some i else first_free act (Suc i) ss)"

lemma first_free_Some:
  "first_free act i ss = Some k \<Longrightarrow>
     i \<le> k \<and> k - i < length ss \<and> \<not> act (ss ! (k - i)) \<and> (\<forall>j < k - i. act (ss ! j))"
proof (induction ss arbitrary: i)
  case Nil
  then show ?case by simp
next
  case (Cons s ss)
  show ?case
  proof (cases "act s")
    case False
    with Cons.prems show ?thesis by auto
  next
    case True
    with Cons have "Suc i \<le> k \<and> k - Suc i < length ss \<and> \<not> act (ss ! (k - Suc i)) \<and>
        (\<forall>j < k - Suc i. act (ss ! j))" by auto
    moreover from this obtain m where "k - i = Suc m" "k - Suc i = m"
      by (metis Suc_diff_Suc Suc_le_lessD)
    ultimately show ?thesis using True
      by (auto simp: less_Suc_eq_0_disj)
  qed
qed

lemma first_free_None: "first_free act i ss = None \<longleftrightarrow> (\<forall>s \<in> set ss. act s)"
  by (induction ss arbitrary: i) auto

locale slot_table =
  fixes act :: "'s \<Rightarrow> bool"
    and claim :: "'s \<Rightarrow> 's"
    and release :: "'s \<Rightarrow> 's"
  assumes claim_act: "act (claim s)"
    and release_act: "\<not> act (release s)"
begin

abbreviation in_use :: "'s list \<Rightarrow> nat" where
  "in_use ss \<equiv> length (filter act ss)"

lemma claim_in_use:
  "k < length ss \<Longrightarrow> \<not> act (ss ! k) \<Longrightarrow> in_use (ss[k := claim (ss ! k)]) = Suc (in_use ss)"
  using count_update [of k ss act "claim (ss ! k)"] by (simp add: claim_act)

lemma release_in_use:
  "k < length ss \<Longrightarrow> act (ss ! k) \<Longrightarrow> Suc (in_use (ss[k := release (ss ! k)])) = in_use ss"
  using count_update [of k ss act "release (ss ! k)"] by (simp add: release_act)

lemma alloc_in_use:
  "first_free act 0 ss = Some k \<Longrightarrow>
     k < length ss \<and> \<not> act (ss ! k) \<and> in_use (ss[k := claim (ss ! k)]) = Suc (in_use ss)"
  using first_free_Some [of act 0 ss k] claim_in_use [of k ss] by simp

lemma alloc_succeeds: "in_use ss < length ss \<Longrightarrow> first_free act 0 ss \<noteq> None"
  by (metis filter_True first_free_None less_irrefl)

lemma alloc_lowest: "first_free act 0 ss = Some k \<Longrightarrow> j < k \<Longrightarrow> act (ss ! j)"
  using first_free_Some [of act 0 ss k] by simp

end

end
