(* ===== verification/Config.thy ===== *)
theory Config
  imports Prelude
begin

text \<open>
  The build-time configuration: the \<open>CONFIG_ESP_NMEA_BRIDGE_*\<close> options of \<open>Kconfig\<close>
  that the C code reads, with the ranges Kconfig enforces, the default values and the
  \<open>BUILD_ASSERT\<close> of \<open>src/nmea_bridge.c\<close>.
\<close>

record app_config =
  ap_enable :: bool
  sta_enable :: bool
  tcp_nmea_server_enable :: bool
  tcp_nmea_client_enable :: bool
  web_app_enable :: bool
  status_led_enable :: bool
  mdns_enable :: bool
  dns_sd_enable :: bool
  tcp_nmea_client_host :: string
  ap_ssid :: string
  ap_psk :: string
  sta_ssid :: string
  sta_psk :: string
  sta_rotate_mac :: bool
  tcp_nmea_port :: nat
  tcp_nmea_server_max_clients :: nat
  nmea_sinks_max :: nat
  nmea_frame_max_len :: nat
  ingest_queue_depth :: nat
  sink_queue_depth :: nat
  ap_ip_address :: string
  ap_netmask :: string

definition default_config :: app_config where
  "default_config =
     \<lparr>ap_enable = True, sta_enable = True, tcp_nmea_server_enable = True,
      tcp_nmea_client_enable = True, web_app_enable = True, status_led_enable = True,
      mdns_enable = False, dns_sd_enable = False,
      tcp_nmea_client_host = '''', ap_ssid = ''ESP-NMEA0183'', ap_psk = ''ChangeMe1234'',
      sta_ssid = '''', sta_psk = '''', sta_rotate_mac = True, tcp_nmea_port = 10110,
      tcp_nmea_server_max_clients = 3, nmea_sinks_max = 4, nmea_frame_max_len = 128,
      ingest_queue_depth = 32, sink_queue_depth = 16,
      ap_ip_address = ''192.168.4.1'', ap_netmask = ''255.255.255.0''\<rparr>"

text \<open>The \<open>range\<close> lines of \<open>Kconfig\<close>.\<close>

definition kconfig_ranges :: "app_config \<Rightarrow> bool" where
  "kconfig_ranges c \<longleftrightarrow>
     1 \<le> tcp_nmea_server_max_clients c \<and> tcp_nmea_server_max_clients c \<le> 8 \<and>
     1 \<le> nmea_sinks_max c \<and> nmea_sinks_max c \<le> 9 \<and>
     32 \<le> nmea_frame_max_len c \<and> nmea_frame_max_len c \<le> 512 \<and>
     2 \<le> ingest_queue_depth c \<and> ingest_queue_depth c \<le> 256 \<and>
     2 \<le> sink_queue_depth c \<and> sink_queue_depth c \<le> 128"

text \<open>The \<open>depends on\<close> lines between the options of this file.\<close>

definition kconfig_depends :: "app_config \<Rightarrow> bool" where
  "kconfig_depends c \<longleftrightarrow>
     (tcp_nmea_client_enable c \<longrightarrow> sta_enable c) \<and>
     (dns_sd_enable c \<longrightarrow> mdns_enable c \<and> (tcp_nmea_server_enable c \<or> web_app_enable c)) \<and>
     (sta_rotate_mac c \<longrightarrow> sta_enable c)"

text \<open>\<open>BUILD_ASSERT\<close>: the sinks cover the server's clients plus the outbound client.\<close>

definition sinks_build_assert :: "app_config \<Rightarrow> bool" where
  "sinks_build_assert c \<longleftrightarrow>
     (if tcp_nmea_server_enable c then tcp_nmea_server_max_clients c else 0) +
     (if tcp_nmea_client_enable c then 1 else 0) \<le> nmea_sinks_max c"

definition config_ok :: "app_config \<Rightarrow> bool" where
  "config_ok c \<longleftrightarrow> kconfig_ranges c \<and> sinks_build_assert c"

lemma default_config_depends: "kconfig_depends default_config"
  by (simp add: kconfig_depends_def default_config_def)

lemma default_config_ok: "config_ok default_config"
  by (simp add: config_ok_def kconfig_ranges_def sinks_build_assert_def default_config_def)

text \<open>
  The smallest queues Kconfig admits: the witnesses that fill a queue run in this
  configuration.
\<close>

definition small_config :: app_config where
  "small_config = default_config\<lparr>ingest_queue_depth := 2, sink_queue_depth := 2\<rparr>"

lemma small_config_ok: "config_ok small_config"
  by (simp add: config_ok_def kconfig_ranges_def sinks_build_assert_def default_config_def
      small_config_def)

lemma config_okD:
  assumes "config_ok c"
  shows "1 \<le> nmea_sinks_max c" and "nmea_sinks_max c \<le> 9"
    and "32 \<le> nmea_frame_max_len c" and "nmea_frame_max_len c \<le> 512"
    and "2 \<le> ingest_queue_depth c" and "2 \<le> sink_queue_depth c"
    and "1 \<le> tcp_nmea_server_max_clients c" and "tcp_nmea_server_max_clients c \<le> 8"
  using assms by (auto simp: config_ok_def kconfig_ranges_def)

end
