(* ===== verification/Bridge.thy ===== *)
theory Bridge
  imports Config
begin

text \<open>
  \<open>src/nmea_bridge.c\<close> and \<open>src/nmea_bridge.h\<close>: the in-process fan-out point. Producers
  publish frames into one ingest queue, the dispatcher thread copies each frame into the
  queue of every registered sink, and each sink is drained by one TCP session. Both kinds
  of queue drop their oldest frame when full.

  The queues are Zephyr's \<open>k_msgq\<close>, which is not part of the repository: its operations are
  the argument \<open>Q\<close> of every definition here, and the locale \<open>kmsgq\<close> states the behaviour
  Zephyr documents for them, over an abstraction \<open>items\<close> (the queued frames, oldest first)
  and \<open>depth\<close> (the capacity).
\<close>

section \<open>Frames, statistics, sinks\<close>

record nmea_frame =
  len :: u16
  data :: "u8 list"

record nmea_bridge_stats =
  frames_in :: u32
  ingest_dropped_oldest :: u32
  sink_dropped_oldest :: u32
  publish_no_sinks :: u32
  publish_invalid :: u32
  publish_oversize :: u32

record nmea_sink_stats =
  queued :: u32
  dropped_oldest :: u32
  consumed :: u32

record nmea_bridge_sink =
  sink_id :: int

record 'q sink_slot =
  slot_active :: bool
  slot_name :: "string option"
  slot_msgq :: 'q
  slot_stats :: nmea_sink_stats

record 'q bridge =
  ingest_msgq :: 'q
  sinks :: "'q sink_slot list"
  bridge_stats :: nmea_bridge_stats

definition zero_sink_stats :: nmea_sink_stats where
  "zero_sink_stats = \<lparr>queued = 0, dropped_oldest = 0, consumed = 0\<rparr>"

definition zero_bridge_stats :: nmea_bridge_stats where
  "zero_bridge_stats = \<lparr>frames_in = 0, ingest_dropped_oldest = 0, sink_dropped_oldest = 0,
     publish_no_sinks = 0, publish_invalid = 0, publish_oversize = 0\<rparr>"

section \<open>The message queue the code is built on\<close>

datatype k_timeout = K_NO_WAIT | K_MSEC nat | K_FOREVER

record 'q msgq_ops =
  k_msgq_put :: "'q \<Rightarrow> nmea_frame \<Rightarrow> status \<times> 'q"
  k_msgq_get :: "k_timeout \<Rightarrow> 'q \<Rightarrow> (errno + nmea_frame) \<times> 'q"
  k_msgq_purge :: "'q \<Rightarrow> 'q"
  k_msgq_init :: "nat \<Rightarrow> 'q"

text \<open>
  A call that waits is modelled at the instant it returns: \<open>k_msgq_get\<close> finds a frame or
  has timed out. The laws are those of the Zephyr manual: a put without waiting into a full
  queue fails and leaves it as it was, a get takes the oldest message, an unsuccessful get
  reports \<open>-ENOMSG\<close> or \<open>-EAGAIN\<close>, purge empties, and no operation changes the capacity.
\<close>

locale kmsgq =
  fixes Q :: "'q msgq_ops"
    and items :: "'q \<Rightarrow> nmea_frame list"
    and depth :: "'q \<Rightarrow> nat"
  assumes put_room: "length (items q) < depth q \<Longrightarrow>
      fst (k_msgq_put Q q f) = success \<and> items (snd (k_msgq_put Q q f)) = items q @ [f]"
    and put_full: "depth q \<le> length (items q) \<Longrightarrow>
      fst (k_msgq_put Q q f) \<in> {failure ENOMSG, failure EAGAIN} \<and>
      items (snd (k_msgq_put Q q f)) = items q"
    and put_depth: "depth (snd (k_msgq_put Q q f)) = depth q"
    and get_some: "items q = f # fs \<Longrightarrow>
      fst (k_msgq_get Q t q) = Inr f \<and> items (snd (k_msgq_get Q t q)) = fs"
    and get_none: "items q = [] \<Longrightarrow>
      fst (k_msgq_get Q t q) \<in> {Inl ENOMSG, Inl EAGAIN} \<and>
      items (snd (k_msgq_get Q t q)) = []"
    and get_depth: "depth (snd (k_msgq_get Q t q)) = depth q"
    and purge_items: "items (k_msgq_purge Q q) = []"
    and purge_depth: "depth (k_msgq_purge Q q) = depth q"
    and init_items: "items (k_msgq_init Q n) = []"
    and init_depth: "depth (k_msgq_init Q n) = n"
begin

lemmas queue_laws [simp] =
  put_depth get_depth purge_items purge_depth init_items init_depth

lemma get_cases:
  obtains (empty) e q' where "k_msgq_get Q t q = (Inl e, q')" "e \<noteq> ENOTCONN"
      "items q = []" "items q' = []" "depth q' = depth q"
  | (frame) f q' where "k_msgq_get Q t q = (Inr f, q')" "items q = f # items q'"
      "depth q' = depth q"
proof (cases "items q")
  case Nil
  then show ?thesis using get_none [of q t] empty get_depth [of t q]
    by (cases "k_msgq_get Q t q") auto
next
  case (Cons f fs)
  then show ?thesis using get_some [of q f fs t] frame get_depth [of t q]
    by (cases "k_msgq_get Q t q") auto
qed

lemma put_cases:
  obtains (room) q' where "k_msgq_put Q q f = (success, q')" "length (items q) < depth q"
      "items q' = items q @ [f]" "depth q' = depth q"
  | (full) e q' where "k_msgq_put Q q f = (failure e, q')" "depth q \<le> length (items q)"
      "items q' = items q" "depth q' = depth q"
proof (cases "length (items q) < depth q")
  case True
  then show ?thesis using put_room [of q f] room put_depth [of q f]
    by (cases "k_msgq_put Q q f") auto
next
  case False
  then show ?thesis using put_full [of q f] full put_depth [of q f]
    by (cases "k_msgq_put Q q f") auto
qed

end

text \<open>
  A bounded list with its capacity satisfies the laws; the witnesses run the model on it.
\<close>

type_synonym ref_queue = "nat \<times> nmea_frame list"

definition ref_msgq :: "ref_queue msgq_ops" where
  "ref_msgq =
     \<lparr>k_msgq_put = (\<lambda>(n, fs) f.
        if length fs < n then (success, n, fs @ [f]) else (failure ENOMSG, n, fs)),
      k_msgq_get = (\<lambda>t (n, fs).
        case fs of [] \<Rightarrow> (Inl (if t = K_NO_WAIT then ENOMSG else EAGAIN), n, [])
        | f # gs \<Rightarrow> (Inr f, n, gs)),
      k_msgq_purge = (\<lambda>(n, fs). (n, [])),
      k_msgq_init = (\<lambda>n. (n, []))\<rparr>"

interpretation ref: kmsgq ref_msgq snd fst
  by unfold_locales (auto simp: ref_msgq_def split: list.splits prod.splits if_splits)

section \<open>The operations of the bridge\<close>

subsection \<open>put_drop_oldest\<close>

definition put_drop_oldest ::
    "'q msgq_ops \<Rightarrow> 'q \<Rightarrow> nmea_frame \<Rightarrow> u32 \<Rightarrow> 'q \<times> u32" where
  "put_drop_oldest Q msgq frame drop_counter =
     (case k_msgq_put Q msgq frame of
        (Inr _, q1) \<Rightarrow> (q1, drop_counter)
      | (Inl _, q1) \<Rightarrow>
          (let q2 = snd (k_msgq_get Q K_NO_WAIT q1);
               drop_counter = drop_counter + 1
           in case k_msgq_put Q q2 frame of
                (Inr _, q3) \<Rightarrow> (q3, drop_counter)
              | (Inl _, q3) \<Rightarrow> (q3, drop_counter + 1)))"

subsection \<open>The dispatcher thread\<close>

text \<open>The body of the loop over the sinks, for one slot.\<close>

definition dispatch_slot ::
    "'q msgq_ops \<Rightarrow> nmea_frame \<Rightarrow> 'q sink_slot \<Rightarrow> nmea_bridge_stats
       \<Rightarrow> 'q sink_slot \<times> nmea_bridge_stats" where
  "dispatch_slot Q frame sl bs =
     (let before = dropped_oldest (slot_stats sl);
          (q, dropped) = put_drop_oldest Q (slot_msgq sl) frame before;
          bs' = (if dropped \<noteq> before
                 then bs\<lparr>sink_dropped_oldest := sink_dropped_oldest bs + (dropped - before)\<rparr>
                 else bs);
          st = (slot_stats sl)\<lparr>dropped_oldest := dropped,
                               queued := queued (slot_stats sl) + 1\<rparr>
      in (sl\<lparr>slot_msgq := q, slot_stats := st\<rparr>, bs'))"

fun dispatch_sinks ::
    "'q msgq_ops \<Rightarrow> nmea_frame \<Rightarrow> 'q sink_slot list \<Rightarrow> nmea_bridge_stats \<Rightarrow> bool
       \<Rightarrow> 'q sink_slot list \<times> nmea_bridge_stats \<times> bool" where
  "dispatch_sinks Q frame [] bs any = ([], bs, any)"
| "dispatch_sinks Q frame (sl # sls) bs any =
     (if \<not> slot_active sl
      then (let (sls', bs', any') = dispatch_sinks Q frame sls bs any
            in (sl # sls', bs', any'))
      else (let (sl1, bs1) = dispatch_slot Q frame sl bs;
                (sls', bs', any') = dispatch_sinks Q frame sls bs1 True
            in (sl1 # sls', bs', any')))"

text \<open>
  One turn of the dispatcher's endless loop. \<open>None\<close>: the thread is still blocked in
  \<open>k_msgq_get(.., K_FOREVER)\<close>, because there is nothing to dispatch.
\<close>

definition dispatcher_iteration :: "'q msgq_ops \<Rightarrow> 'q bridge \<Rightarrow> 'q bridge option" where
  "dispatcher_iteration Q b =
     (case k_msgq_get Q K_FOREVER (ingest_msgq b) of
        (Inl _, _) \<Rightarrow> None
      | (Inr frame, q) \<Rightarrow>
          (let (sls, bs, any) = dispatch_sinks Q frame (sinks b) (bridge_stats b) False;
               bs' = (if \<not> any then bs\<lparr>publish_no_sinks := publish_no_sinks bs + 1\<rparr> else bs)
           in Some (b\<lparr>ingest_msgq := q, sinks := sls, bridge_stats := bs'\<rparr>)))"

subsection \<open>Initialisation\<close>

text \<open>
  The static storage before \<open>main\<close> runs: zeroed slots (\<open>q0\<close> is a zeroed queue object),
  and the ingest queue that \<open>K_MSGQ_DEFINE\<close> sets up.
\<close>

definition bridge_storage :: "app_config \<Rightarrow> 'q msgq_ops \<Rightarrow> 'q \<Rightarrow> 'q bridge" where
  "bridge_storage c Q q0 =
     \<lparr>ingest_msgq = k_msgq_init Q (ingest_queue_depth c),
      sinks = replicate (nmea_sinks_max c)
        \<lparr>slot_active = False, slot_name = None, slot_msgq = q0, slot_stats = zero_sink_stats\<rparr>,
      bridge_stats = zero_bridge_stats\<rparr>"

definition nmea_bridge_init :: "app_config \<Rightarrow> 'q msgq_ops \<Rightarrow> 'q bridge \<Rightarrow> 'q bridge" where
  "nmea_bridge_init c Q b =
     b\<lparr>sinks := map (\<lambda>sl. sl\<lparr>slot_msgq := k_msgq_init Q (sink_queue_depth c)\<rparr>) (sinks b)\<rparr>"

subsection \<open>Publishing\<close>

text \<open>
  \<open>ptr\<close> is the \<open>data\<close> pointer: \<open>None\<close> for \<open>NULL\<close>, else the bytes it points to, of which
  the caller guarantees at least \<open>n\<close>.
\<close>

definition make_frame :: "u8 list \<Rightarrow> nat \<Rightarrow> nmea_frame" where
  "make_frame bytes n =
     (let l = word_of_nat n in \<lparr>len = l, data = take (unat l) bytes\<rparr>)"

definition nmea_bridge_publish_frame ::
    "app_config \<Rightarrow> 'q msgq_ops \<Rightarrow> u8 list option \<Rightarrow> nat \<Rightarrow> 'q bridge \<Rightarrow> status \<times> 'q bridge" where
  "nmea_bridge_publish_frame c Q ptr n b =
     (if ptr = None \<or> n = 0
      then (failure EINVAL,
            b\<lparr>bridge_stats := (bridge_stats b)
                \<lparr>publish_invalid := publish_invalid (bridge_stats b) + 1\<rparr>\<rparr>)
      else if nmea_frame_max_len c < n
      then (failure EMSGSIZE,
            b\<lparr>bridge_stats := (bridge_stats b)
                \<lparr>publish_oversize := publish_oversize (bridge_stats b) + 1\<rparr>\<rparr>)
      else (let frame = make_frame (the ptr) n;
                bs = (bridge_stats b)\<lparr>frames_in := frames_in (bridge_stats b) + 1\<rparr>;
                (q, dropped) = put_drop_oldest Q (ingest_msgq b) frame (ingest_dropped_oldest bs)
            in (success, b\<lparr>ingest_msgq := q,
                           bridge_stats := bs\<lparr>ingest_dropped_oldest := dropped\<rparr>\<rparr>)))"

subsection \<open>Opening, closing and draining a sink\<close>

definition claim_slot :: "'q msgq_ops \<Rightarrow> string option \<Rightarrow> 'q sink_slot \<Rightarrow> 'q sink_slot" where
  "claim_slot Q name sl =
     sl\<lparr>slot_active := True, slot_name := name, slot_stats := zero_sink_stats,
        slot_msgq := k_msgq_purge Q (slot_msgq sl)\<rparr>"

definition nmea_bridge_sink_open ::
    "'q msgq_ops \<Rightarrow> nmea_bridge_sink option \<Rightarrow> string option \<Rightarrow> 'q bridge
       \<Rightarrow> status \<times> nmea_bridge_sink option \<times> 'q bridge" where
  "nmea_bridge_sink_open Q sink name b =
     (case sink of
        None \<Rightarrow> (failure EINVAL, None, b)
      | Some s \<Rightarrow>
          (case first_free slot_active 0 (sinks b) of
             Some i \<Rightarrow>
               (success, Some (s\<lparr>sink_id := int i\<rparr>),
                b\<lparr>sinks := (sinks b)[i := claim_slot Q name (sinks b ! i)]\<rparr>)
           | None \<Rightarrow> (failure ENOMEM, Some (s\<lparr>sink_id := - 1\<rparr>), b)))"

definition release_slot :: "'q msgq_ops \<Rightarrow> 'q sink_slot \<Rightarrow> 'q sink_slot" where
  "release_slot Q sl =
     sl\<lparr>slot_active := False, slot_name := None,
        slot_msgq := k_msgq_purge Q (slot_msgq sl)\<rparr>"

definition nmea_bridge_sink_close ::
    "'q msgq_ops \<Rightarrow> nmea_bridge_sink option \<Rightarrow> 'q bridge
       \<Rightarrow> nmea_bridge_sink option \<times> 'q bridge" where
  "nmea_bridge_sink_close Q sink b =
     (case sink of
        None \<Rightarrow> (None, b)
      | Some s \<Rightarrow>
          if sink_id s < 0 \<or> int (length (sinks b)) \<le> sink_id s then (Some s, b)
          else (let i = nat (sink_id s)
                in (Some (s\<lparr>sink_id := - 1\<rparr>),
                    b\<lparr>sinks := (sinks b)[i := release_slot Q (sinks b ! i)]\<rparr>)))"

text \<open>\<open>frame_null\<close>: the \<open>frame\<close> argument is \<open>NULL\<close>. The result is the frame that is stored there.\<close>

definition nmea_bridge_sink_take ::
    "'q msgq_ops \<Rightarrow> nmea_bridge_sink option \<Rightarrow> bool \<Rightarrow> k_timeout \<Rightarrow> 'q bridge
       \<Rightarrow> (errno + nmea_frame) \<times> 'q bridge" where
  "nmea_bridge_sink_take Q sink frame_null timeout b =
     (case sink of
        None \<Rightarrow> (Inl EINVAL, b)
      | Some s \<Rightarrow>
          if frame_null then (Inl EINVAL, b)
          else if sink_id s < 0 then (Inl ENOTCONN, b)
          else if int (length (sinks b)) \<le> sink_id s then (Inl EINVAL, b)
          else (let i = nat (sink_id s); sl = sinks b ! i
                in if \<not> slot_active sl then (Inl ENOTCONN, b)
                   else (case k_msgq_get Q timeout (slot_msgq sl) of
                           (Inl e, q) \<Rightarrow>
                             (Inl e, b\<lparr>sinks := (sinks b)[i := sl\<lparr>slot_msgq := q\<rparr>]\<rparr>)
                         | (Inr f, q) \<Rightarrow>
                             (let st = (slot_stats sl)\<lparr>consumed := consumed (slot_stats sl) + 1\<rparr>
                              in (Inr f, b\<lparr>sinks := (sinks b)
                                    [i := sl\<lparr>slot_msgq := q, slot_stats := st\<rparr>]\<rparr>)))))"

subsection \<open>Statistics\<close>

text \<open>The out-pointer \<open>stats\<close> is \<open>None\<close> for \<open>NULL\<close>, else what it points to.\<close>

definition nmea_bridge_get_stats ::
    "'q bridge \<Rightarrow> nmea_bridge_stats option \<Rightarrow> nmea_bridge_stats option" where
  "nmea_bridge_get_stats b stats = (if stats \<noteq> None then Some (bridge_stats b) else None)"

definition nmea_bridge_get_sink_stats ::
    "'q bridge \<Rightarrow> nmea_bridge_sink option \<Rightarrow> nmea_sink_stats option \<Rightarrow> nmea_sink_stats option" where
  "nmea_bridge_get_sink_stats b sink stats =
     (case (stats, sink) of
        (Some _, Some s) \<Rightarrow>
          if sink_id s < 0 \<or> int (length (sinks b)) \<le> sink_id s then stats
          else Some (slot_stats (sinks b ! nat (sink_id s)))
      | _ \<Rightarrow> stats)"

end
