(* ===== verification/Bridge_Facts.thy ===== *)
theory Bridge_Facts
  imports Bridge
begin

text \<open>
  What the operations of \<open>Bridge\<close> do, under the documented laws of the message queue: the
  drop-oldest discipline of \<open>put_drop_oldest\<close>, the effect of one dispatch on every slot, the
  well-formedness invariant of the bridge and its preservation by every operation.
\<close>

section \<open>Drop-oldest buffers\<close>

text \<open>
  The contract of a bounded buffer that always accepts and, when full, forgets its oldest
  element: pushing any sequence leaves the most recent elements in order.
\<close>

locale drop_oldest_buffer =
  fixes push :: "'b \<Rightarrow> 'a \<Rightarrow> 'b"
    and view :: "'b \<Rightarrow> 'a list"
    and cap :: "'b \<Rightarrow> nat"
  assumes push_view: "length (view b) \<le> cap b \<Longrightarrow> 0 < cap b \<Longrightarrow>
      view (push b x) = take_last (cap b) (view b @ [x])"
    and push_cap: "cap (push b x) = cap b"
begin

lemma push_bounded: "length (view b) \<le> cap b \<Longrightarrow> 0 < cap b \<Longrightarrow> length (view (push b x)) \<le> cap b"
  by (simp add: push_view)

lemma pushes_view:
  "length (view b) \<le> cap b \<Longrightarrow> 0 < cap b \<Longrightarrow>
     view (foldl push b xs) = take_last (cap b) (view b @ xs)"
proof (induction xs arbitrary: b)
  case Nil
  then show ?case by simp
next
  case (Cons x xs)
  have "view (foldl push b (x # xs)) = take_last (cap b) (take_last (cap b) (view b @ [x]) @ xs)"
    using Cons by (simp add: push_cap push_view)
  then show ?case by (simp add: take_last_append_absorb)
qed

lemma pushes_room:
  "length (view b) + length xs \<le> cap b \<Longrightarrow> 0 < cap b \<Longrightarrow>
     view (foldl push b xs) = view b @ xs"
  by (simp add: pushes_view)

end

context kmsgq
begin

lemma put_drop_oldest_effect:
  assumes "length (items q) \<le> depth q" and "0 < depth q"
  shows "items (fst (put_drop_oldest Q q f d)) = take_last (depth q) (items q @ [f])"
    and "snd (put_drop_oldest Q q f d) = (if length (items q) = depth q then d + 1 else d)"
proof -
  have "items (fst (put_drop_oldest Q q f d)) = take_last (depth q) (items q @ [f]) \<and>
      snd (put_drop_oldest Q q f d) = (if length (items q) = depth q then d + 1 else d)"
  proof (cases rule: put_cases [of q f])
    case (room q1)
    then show ?thesis by (simp add: put_drop_oldest_def)
  next
    case put: (full e q1)
    then have full: "length (items q) = depth q" and ne: "items q \<noteq> []"
      using assms by auto
    obtain g q2 where g: "k_msgq_get Q K_NO_WAIT q1 = (Inr g, q2)" "items q1 = g # items q2"
        "depth q2 = depth q1"
      using put ne by (cases rule: get_cases [of K_NO_WAIT q1]) auto
    then have "length (items q2) < depth q2"
      using put full by (metis Suc_le_eq dual_order.refl length_Cons)
    then obtain q3 where "k_msgq_put Q q2 f = (success, q3)" "items q3 = items q2 @ [f]"
      by (cases rule: put_cases [of q2 f]) auto
    moreover have "items q2 = tl (items q)" using g(2) put(3) by (metis list.sel(3))
    ultimately show ?thesis using put g full ne
      by (simp add: put_drop_oldest_def take_last_snoc_full)
  qed
  then show "items (fst (put_drop_oldest Q q f d)) = take_last (depth q) (items q @ [f])"
    and "snd (put_drop_oldest Q q f d) = (if length (items q) = depth q then d + 1 else d)"
    by auto
qed

lemma put_drop_oldest_depth [simp]: "depth (fst (put_drop_oldest Q q f d)) = depth q"
proof -
  obtain r1 q1 where 1: "k_msgq_put Q q f = (r1, q1)" by (cases "k_msgq_put Q q f")
  define q2 where "q2 = snd (k_msgq_get Q K_NO_WAIT q1)"
  obtain r3 q3 where 3: "k_msgq_put Q q2 f = (r3, q3)" by (cases "k_msgq_put Q q2 f")
  have "depth q1 = depth q" using put_depth [of q f] 1 by simp
  moreover have "depth q2 = depth q1" by (simp add: q2_def)
  moreover have "depth q3 = depth q2" using put_depth [of q2 f] 3 by simp
  moreover have "fst (put_drop_oldest Q q f d) \<in> {q1, q3}"
    using 1 3 by (auto simp: put_drop_oldest_def Let_def q2_def split: sum.split)
  ultimately show ?thesis by auto
qed

end

sublocale kmsgq \<subseteq> dropping: drop_oldest_buffer
  "\<lambda>b f. put_drop_oldest Q (fst b) f (snd b)" "items \<circ> fst" "depth \<circ> fst"
proof unfold_locales
  fix b f
  show "(items \<circ> fst) (put_drop_oldest Q (fst b) f (snd b)) =
      take_last ((depth \<circ> fst) b) ((items \<circ> fst) b @ [f])"
    if "length ((items \<circ> fst) b) \<le> (depth \<circ> fst) b" and "0 < (depth \<circ> fst) b"
    using that put_drop_oldest_effect(1) [of "fst b" f "snd b"] by simp
  show "(depth \<circ> fst) (put_drop_oldest Q (fst b) f (snd b)) = (depth \<circ> fst) b"
    by (simp add: put_drop_oldest_depth)
qed

text \<open>The drop counter over a sequence of pushes.\<close>

context kmsgq
begin

lemma dropping_buffer: "drop_oldest_buffer (\<lambda>b f. put_drop_oldest Q (fst b) f (snd b))
    (items \<circ> fst) (depth \<circ> fst)"
  by (rule dropping.drop_oldest_buffer_axioms)

lemma pushes_count:
  "length (items (fst b)) \<le> depth (fst b) \<Longrightarrow> 0 < depth (fst b) \<Longrightarrow>
     snd (foldl (\<lambda>b f. put_drop_oldest Q (fst b) f (snd b)) b fs) =
     snd b + word_of_nat (length (items (fst b)) + length fs - depth (fst b))"
proof (induction fs arbitrary: b)
  case Nil
  then show ?case by simp
next
  case (Cons f fs)
  let ?b = "put_drop_oldest Q (fst b) f (snd b)"
  note e = put_drop_oldest_effect [OF Cons.prems, of f "snd b"]
  have "snd (foldl (\<lambda>b f. put_drop_oldest Q (fst b) f (snd b)) ?b fs) =
      snd ?b + word_of_nat (length (items (fst ?b)) + length fs - depth (fst ?b))"
    using Cons.prems by (intro Cons.IH) (simp_all add: e)
  moreover have "length (items (fst b)) + length (f # fs) - depth (fst b) =
      (if length (items (fst b)) = depth (fst b)
       then Suc (length (items (fst ?b)) + length fs - depth (fst ?b))
       else length (items (fst ?b)) + length fs - depth (fst ?b))"
    using Cons.prems by (auto simp: e)
  ultimately show ?case by (simp add: e(2))
qed

end

section \<open>One dispatch, slot by slot\<close>

text \<open>What dispatching a frame leaves in a slot, and by how much the drop counter moves.\<close>

definition pushed_slot :: "'q msgq_ops \<Rightarrow> nmea_frame \<Rightarrow> 'q sink_slot \<Rightarrow> 'q sink_slot" where
  "pushed_slot Q f sl =
     (if slot_active sl then fst (dispatch_slot Q f sl zero_bridge_stats) else sl)"

definition slot_drops :: "'q msgq_ops \<Rightarrow> nmea_frame \<Rightarrow> 'q sink_slot \<Rightarrow> u32" where
  "slot_drops Q f sl =
     (if slot_active sl
      then dropped_oldest (slot_stats (pushed_slot Q f sl)) - dropped_oldest (slot_stats sl)
      else 0)"

lemma dispatch_slot_eq:
  "slot_active sl \<Longrightarrow> dispatch_slot Q f sl bs =
     (pushed_slot Q f sl,
      bs\<lparr>sink_dropped_oldest := sink_dropped_oldest bs + slot_drops Q f sl\<rparr>)"
  by (auto simp: pushed_slot_def slot_drops_def dispatch_slot_def Let_def split: prod.split)

lemma dispatch_sinks_eq:
  "dispatch_sinks Q f sls bs any =
     (map (pushed_slot Q f) sls,
      bs\<lparr>sink_dropped_oldest := sink_dropped_oldest bs + (\<Sum>sl\<leftarrow>sls. slot_drops Q f sl)\<rparr>,
      any \<or> (\<exists>sl \<in> set sls. slot_active sl))"
proof (induction sls arbitrary: bs any)
  case Nil
  then show ?case by simp
next
  case (Cons sl sls)
  show ?case
  proof (cases "slot_active sl")
    case True
    then show ?thesis by (simp add: dispatch_slot_eq Cons.IH Let_def add.assoc)
  next
    case False
    then show ?thesis by (simp add: Cons.IH slot_drops_def pushed_slot_def)
  qed
qed

lemma pushed_slot_active [simp]: "slot_active (pushed_slot Q f sl) = slot_active sl"
  by (auto simp: pushed_slot_def dispatch_slot_def Let_def split: prod.split)

lemma pushed_slot_inactive [simp]: "\<not> slot_active sl \<Longrightarrow> pushed_slot Q f sl = sl"
  by (simp add: pushed_slot_def)

lemma slot_drops_inactive [simp]: "\<not> slot_active sl \<Longrightarrow> slot_drops Q f sl = 0"
  by (simp add: slot_drops_def)

lemma pushed_slot_fields:
  assumes "slot_active sl"
  shows "slot_msgq (pushed_slot Q f sl) =
           fst (put_drop_oldest Q (slot_msgq sl) f (dropped_oldest (slot_stats sl)))"
    and "slot_stats (pushed_slot Q f sl) =
           (slot_stats sl)\<lparr>dropped_oldest :=
              snd (put_drop_oldest Q (slot_msgq sl) f (dropped_oldest (slot_stats sl))),
            queued := queued (slot_stats sl) + 1\<rparr>"
  using assms by (auto simp: pushed_slot_def dispatch_slot_def Let_def split: prod.split)

lemma dispatcher_iteration_None:
  "dispatcher_iteration Q b = None \<longleftrightarrow> isl (fst (k_msgq_get Q K_FOREVER (ingest_msgq b)))"
  by (auto simp: dispatcher_iteration_def Let_def split: prod.splits sum.splits)

text \<open>The bridge counters after dispatching \<open>f\<close>.\<close>

definition dispatch_stats :: "'q msgq_ops \<Rightarrow> nmea_frame \<Rightarrow> 'q bridge \<Rightarrow> nmea_bridge_stats" where
  "dispatch_stats Q f b = (bridge_stats b)
     \<lparr>sink_dropped_oldest := sink_dropped_oldest (bridge_stats b) +
        (\<Sum>sl\<leftarrow>sinks b. slot_drops Q f sl),
      publish_no_sinks := publish_no_sinks (bridge_stats b) +
        (if \<exists>sl \<in> set (sinks b). slot_active sl then 0 else 1)\<rparr>"

lemma dispatcher_iteration_Some:
  "k_msgq_get Q K_FOREVER (ingest_msgq b) = (Inr f, q) \<Longrightarrow>
     dispatcher_iteration Q b =
       Some (b\<lparr>ingest_msgq := q, sinks := map (pushed_slot Q f) (sinks b),
              bridge_stats := dispatch_stats Q f b\<rparr>)"
  by (cases "\<exists>sl \<in> set (sinks b). slot_active sl")
    (auto simp: dispatcher_iteration_def dispatch_sinks_eq Let_def dispatch_stats_def)

text \<open>The sinks are a table of slots.\<close>

interpretation sink_table: slot_table slot_active "claim_slot Q name" "release_slot Q" for Q name
  by unfold_locales (simp_all add: claim_slot_def release_slot_def)

section \<open>Well-formed bridges\<close>

text \<open>
  The counters of an active slot balance: every frame ever queued is consumed, dropped or
  still in the queue. The counters are 32 bits wide and the balance holds modulo \<open>2 ^ 32\<close>.
\<close>

definition slot_balanced :: "('q \<Rightarrow> nmea_frame list) \<Rightarrow> 'q sink_slot \<Rightarrow> bool" where
  "slot_balanced items sl \<longleftrightarrow>
     queued (slot_stats sl) =
       consumed (slot_stats sl) + dropped_oldest (slot_stats sl) +
       word_of_nat (length (items (slot_msgq sl)))"

definition slot_wf ::
    "app_config \<Rightarrow> ('q \<Rightarrow> nmea_frame list) \<Rightarrow> ('q \<Rightarrow> nat) \<Rightarrow> 'q sink_slot \<Rightarrow> bool" where
  "slot_wf c items depth sl \<longleftrightarrow>
     depth (slot_msgq sl) = sink_queue_depth c \<and>
     length (items (slot_msgq sl)) \<le> sink_queue_depth c \<and>
     (slot_active sl \<longrightarrow> slot_balanced items sl)"

definition bridge_wf ::
    "app_config \<Rightarrow> ('q \<Rightarrow> nmea_frame list) \<Rightarrow> ('q \<Rightarrow> nat) \<Rightarrow> 'q bridge \<Rightarrow> bool" where
  "bridge_wf c items depth b \<longleftrightarrow>
     length (sinks b) = nmea_sinks_max c \<and>
     depth (ingest_msgq b) = ingest_queue_depth c \<and>
     length (items (ingest_msgq b)) \<le> ingest_queue_depth c \<and>
     (\<forall>sl \<in> set (sinks b). slot_wf c items depth sl)"

lemma bridge_wfD:
  assumes "bridge_wf c items depth b"
  shows "length (sinks b) = nmea_sinks_max c"
    and "depth (ingest_msgq b) = ingest_queue_depth c"
    and "length (items (ingest_msgq b)) \<le> ingest_queue_depth c"
    and "i < nmea_sinks_max c \<Longrightarrow> slot_wf c items depth (sinks b ! i)"
  using assms by (auto simp: bridge_wf_def)

lemma bridge_wf_update:
  assumes "bridge_wf c items depth b" and "slot_wf c items depth sl"
  shows "bridge_wf c items depth (b\<lparr>sinks := (sinks b)[i := sl]\<rparr>)"
  using assms set_update_subset_insert [of "sinks b" i sl] by (auto simp: bridge_wf_def)

lemma bridge_wf_stats [simp]:
  "bridge_wf c items depth (b\<lparr>bridge_stats := bs\<rparr>) = bridge_wf c items depth b"
  by (simp add: bridge_wf_def)

text \<open>
  The bridge on a queue that obeys its laws, in a configuration Kconfig admits: the context
  in which the facts below are proved once.
\<close>

locale bridge_on_queue = kmsgq Q items depth
  for Q :: "'q msgq_ops" and items :: "'q \<Rightarrow> nmea_frame list" and depth :: "'q \<Rightarrow> nat" +
  fixes c :: app_config
  assumes cfg: "config_ok c"
begin

lemmas cfg_bounds = config_okD [OF cfg]

abbreviation wf :: "'q bridge \<Rightarrow> bool" where
  "wf b \<equiv> bridge_wf c items depth b"

lemma pushed_slot_effect:
  assumes "slot_wf c items depth sl" and "slot_active sl"
  shows "items (slot_msgq (pushed_slot Q f sl)) =
           take_last (sink_queue_depth c) (items (slot_msgq sl) @ [f])"
    and "depth (slot_msgq (pushed_slot Q f sl)) = sink_queue_depth c"
    and "slot_drops Q f sl =
           (if length (items (slot_msgq sl)) = sink_queue_depth c then 1 else 0)"
    and "slot_stats (pushed_slot Q f sl) =
           (slot_stats sl)\<lparr>dropped_oldest := dropped_oldest (slot_stats sl) + slot_drops Q f sl,
              queued := queued (slot_stats sl) + 1\<rparr>"
proof -
  have "length (items (slot_msgq sl)) \<le> depth (slot_msgq sl)" "0 < depth (slot_msgq sl)"
    using assms cfg_bounds by (auto simp: slot_wf_def)
  note e = put_drop_oldest_effect [OF this, of f "dropped_oldest (slot_stats sl)"]
  note f = pushed_slot_fields [OF assms(2), of Q f]
  have d: "depth (slot_msgq sl) = sink_queue_depth c" using assms(1) by (simp add: slot_wf_def)
  show "items (slot_msgq (pushed_slot Q f sl)) =
      take_last (sink_queue_depth c) (items (slot_msgq sl) @ [f])"
    and "depth (slot_msgq (pushed_slot Q f sl)) = sink_queue_depth c"
    by (simp_all add: e f d)
  show drops: "slot_drops Q f sl =
      (if length (items (slot_msgq sl)) = sink_queue_depth c then 1 else 0)"
    using assms(2) by (simp add: slot_drops_def e f d)
  show "slot_stats (pushed_slot Q f sl) =
      (slot_stats sl)\<lparr>dropped_oldest := dropped_oldest (slot_stats sl) + slot_drops Q f sl,
         queued := queued (slot_stats sl) + 1\<rparr>"
    by (simp add: e f d drops)
qed

lemma pushed_slot_wf [inv_intros]:
  assumes "slot_wf c items depth sl"
  shows "slot_wf c items depth (pushed_slot Q f sl)"
proof (cases "slot_active sl")
  case False
  then show ?thesis using assms by simp
next
  case True
  note e = pushed_slot_effect [OF assms True, of f]
  have "word_of_nat (length (take_last (sink_queue_depth c) (items (slot_msgq sl) @ [f]))) +
      (if length (items (slot_msgq sl)) = sink_queue_depth c then 1 else 0 :: u32) =
      word_of_nat (length (items (slot_msgq sl))) + 1"
  proof (cases "length (items (slot_msgq sl)) = sink_queue_depth c")
    case True
    then show ?thesis by simp
  next
    case False
    then have "min (sink_queue_depth c) (Suc (length (items (slot_msgq sl)))) =
        Suc (length (items (slot_msgq sl)))"
      using assms by (simp add: slot_wf_def)
    with False show ?thesis by simp
  qed
  then have "slot_balanced items (pushed_slot Q f sl)"
    using assms True
    by (simp add: slot_balanced_def slot_wf_def e algebra_simps)
  then show ?thesis using e by (simp add: slot_wf_def)
qed

lemma claim_slot_wf [inv_intros]:
  "slot_wf c items depth sl \<Longrightarrow> slot_wf c items depth (claim_slot Q name sl)"
  by (simp add: slot_wf_def claim_slot_def slot_balanced_def zero_sink_stats_def)

lemma release_slot_wf [inv_intros]:
  "slot_wf c items depth sl \<Longrightarrow> slot_wf c items depth (release_slot Q sl)"
  by (simp add: slot_wf_def release_slot_def)

lemma init_wf: "wf (nmea_bridge_init c Q (bridge_storage c Q q0))"
  by (auto simp: bridge_wf_def slot_wf_def nmea_bridge_init_def bridge_storage_def)

lemma dispatcher_iteration_wf [inv_intros]:
  assumes "wf b" and "dispatcher_iteration Q b = Some b'"
  shows "wf b'"
proof (cases rule: get_cases [of K_FOREVER "ingest_msgq b"])
  case (empty e q')
  then show ?thesis using assms by (simp add: dispatcher_iteration_def)
next
  case got: (frame f q')
  have "b' = b\<lparr>ingest_msgq := q', sinks := map (pushed_slot Q f) (sinks b),
      bridge_stats := dispatch_stats Q f b\<rparr>"
    using dispatcher_iteration_Some [OF got(1)] assms(2) by simp
  then show ?thesis using assms(1) got(2,3)
    by (auto simp: bridge_wf_def intro: pushed_slot_wf)
qed

lemma publish_effect:
  assumes "wf b" and "0 < n" and "n \<le> nmea_frame_max_len c"
  obtains q where
    "nmea_bridge_publish_frame c Q (Some bytes) n b =
       (success, b\<lparr>ingest_msgq := q,
          bridge_stats := (bridge_stats b)
            \<lparr>frames_in := frames_in (bridge_stats b) + 1,
             ingest_dropped_oldest := ingest_dropped_oldest (bridge_stats b) +
               (if length (items (ingest_msgq b)) = ingest_queue_depth c then 1 else 0)\<rparr>\<rparr>)"
    "items q = take_last (ingest_queue_depth c) (items (ingest_msgq b) @ [make_frame bytes n])"
    "depth q = ingest_queue_depth c"
proof -
  have "length (items (ingest_msgq b)) \<le> depth (ingest_msgq b)" "0 < depth (ingest_msgq b)"
    using assms cfg_bounds by (auto simp: bridge_wf_def)
  note e = put_drop_oldest_effect [OF this, of "make_frame bytes n"
      "ingest_dropped_oldest (bridge_stats b)"]
  have d: "depth (ingest_msgq b) = ingest_queue_depth c" using assms(1) by (rule bridge_wfD)
  show ?thesis
    by (rule that [of "fst (put_drop_oldest Q (ingest_msgq b) (make_frame bytes n)
          (ingest_dropped_oldest (bridge_stats b)))"])
      (use assms(2,3) in \<open>simp_all add: e d nmea_bridge_publish_frame_def Let_def split_beta\<close>)
qed

lemma publish_wf [inv_intros]:
  assumes "wf b"
  shows "wf (snd (nmea_bridge_publish_frame c Q ptr n b))"
proof (cases "ptr = None \<or> n = 0 \<or> nmea_frame_max_len c < n")
  case True
  then show ?thesis using assms by (auto simp: nmea_bridge_publish_frame_def)
next
  case False
  then obtain bytes where bytes: "ptr = Some bytes" "0 < n" "n \<le> nmea_frame_max_len c" by auto
  obtain q bs where "nmea_bridge_publish_frame c Q ptr n b =
        (success, b\<lparr>ingest_msgq := q, bridge_stats := bs\<rparr>)"
      "length (items q) \<le> ingest_queue_depth c" "depth q = ingest_queue_depth c"
    using publish_effect [OF assms bytes(2,3), of bytes] bytes(1)
    by (metis length_take_last min.cobounded1)
  then show ?thesis using assms by (simp add: bridge_wf_def)
qed

lemma open_wf [inv_intros]:
  assumes "wf b"
  shows "wf (snd (snd (nmea_bridge_sink_open Q sink name b)))"
  using assms bridge_wfD(4) [OF assms]
  by (auto simp: nmea_bridge_sink_open_def bridge_wfD(1) [OF assms] dest!: first_free_Some
      split: option.split intro!: bridge_wf_update claim_slot_wf)

lemma close_wf [inv_intros]:
  assumes "wf b"
  shows "wf (snd (nmea_bridge_sink_close Q sink b))"
  using assms bridge_wfD(4) [OF assms]
  by (auto simp: nmea_bridge_sink_close_def Let_def bridge_wfD(1) [OF assms] nat_less_iff
      split: option.split intro!: bridge_wf_update release_slot_wf)

text \<open>Taking from an active sink: the oldest frame, or a time-out that changes nothing.\<close>

lemma take_active_cases:
  assumes "wf b" and "0 \<le> sink_id s" and "nat (sink_id s) = i" and "i < nmea_sinks_max c"
    and "slot_active (sinks b ! i)"
  obtains (empty) e sl where
      "nmea_bridge_sink_take Q (Some s) False t b = (Inl e, b\<lparr>sinks := (sinks b)[i := sl]\<rparr>)"
      "e \<noteq> ENOTCONN" "items (slot_msgq (sinks b ! i)) = []" "items (slot_msgq sl) = []"
      "depth (slot_msgq sl) = sink_queue_depth c"
      "slot_active sl" "slot_stats sl = slot_stats (sinks b ! i)"
  | (frame) f sl where
      "nmea_bridge_sink_take Q (Some s) False t b = (Inr f, b\<lparr>sinks := (sinks b)[i := sl]\<rparr>)"
      "items (slot_msgq (sinks b ! i)) = f # items (slot_msgq sl)"
      "depth (slot_msgq sl) = sink_queue_depth c"
      "slot_active sl"
      "slot_stats sl = (slot_stats (sinks b ! i))
         \<lparr>consumed := consumed (slot_stats (sinks b ! i)) + 1\<rparr>"
proof -
  let ?sl = "sinks b ! i"
  have len: "int i < int (length (sinks b))" "sink_id s = int i"
    using assms(2-4) bridge_wfD(1) [OF assms(1)] by auto
  have dep: "depth (slot_msgq ?sl) = sink_queue_depth c"
    using bridge_wfD(4) [OF assms(1) assms(4)] by (simp add: slot_wf_def)
  show ?thesis
  proof (cases rule: get_cases [of t "slot_msgq ?sl"])
    case got: (empty e q')
    show ?thesis
      by (rule empty [of e "?sl\<lparr>slot_msgq := q'\<rparr>"])
        (use got assms len dep in \<open>simp_all add: nmea_bridge_sink_take_def Let_def\<close>)
  next
    case got: (frame f q')
    show ?thesis
      by (rule frame [of f "?sl\<lparr>slot_msgq := q', slot_stats := (slot_stats ?sl)
            \<lparr>consumed := consumed (slot_stats ?sl) + 1\<rparr>\<rparr>"])
        (use got assms len dep in \<open>simp_all add: nmea_bridge_sink_take_def Let_def\<close>)
  qed
qed

lemma take_rejected:
  assumes "wf b" and "sink_id s < 0 \<or> int (nmea_sinks_max c) \<le> sink_id s \<or>
      \<not> slot_active (sinks b ! nat (sink_id s))"
  shows "\<exists>e. nmea_bridge_sink_take Q (Some s) False t b = (Inl e, b)"
  using assms(2) bridge_wfD(1) [OF assms(1)]
  by (auto simp: nmea_bridge_sink_take_def Let_def)

lemma take_wf [inv_intros]:
  assumes "wf b"
  shows "wf (snd (nmea_bridge_sink_take Q sink frame_null t b))"
proof (cases "sink = None \<or> frame_null")
  case True
  then show ?thesis using assms by (auto simp: nmea_bridge_sink_take_def split: option.split)
next
  case False
  then obtain s where s: "sink = Some s" "\<not> frame_null" by auto
  show ?thesis
  proof (cases "sink_id s < 0 \<or> int (nmea_sinks_max c) \<le> sink_id s \<or>
      \<not> slot_active (sinks b ! nat (sink_id s))")
    case True
    then show ?thesis using s assms take_rejected [OF assms True, of t] by auto
  next
    case False
    then have i: "nat (sink_id s) < nmea_sinks_max c" and ge: "0 \<le> sink_id s"
      and act: "slot_active (sinks b ! nat (sink_id s))" by auto
    note w = bridge_wfD(4) [OF assms i]
    from assms ge refl i act show ?thesis
    proof (cases rule: take_active_cases [where t = t])
      case (empty e sl)
      then have "slot_wf c items depth sl"
        using w False by (simp add: slot_wf_def slot_balanced_def)
      then show ?thesis using s empty(1) assms by (simp add: bridge_wf_update)
    next
      case (frame f sl)
      then have "slot_wf c items depth sl"
        using w False by (simp add: slot_wf_def slot_balanced_def)
      then show ?thesis using s frame(1) assms by (simp add: bridge_wf_update)
    qed
  qed
qed

end

end
