(* ===== verification/Bridge_Trace.thy ===== *)
theory Bridge_Trace
  imports Bridge_Facts
begin

text \<open>
  Runs of the bridge. Publishing (the UART thread), dispatching (the dispatcher thread) and
  opening, draining and closing a sink (the session threads) are events; a run is any list
  of them, since each takes effect at once from the other threads' point of view. The run is
  instrumented with histories the code does not keep: the frames accepted by
  \<open>nmea_bridge_publish_frame\<close>, those the dispatcher took from the ingest queue, and per sink
  those it was offered and those it delivered since it was opened.
\<close>

section \<open>Instrumented runs\<close>

datatype bridge_event =
    Publish "u8 list option" nat
  | Dispatch
  | Open "string option"
  | Close int
  | Take int k_timeout

record 'q traced =
  bridge_of :: "'q bridge"
  accepted :: "nmea_frame list"
  dispatched :: "nmea_frame list"
  seen :: "nat \<Rightarrow> nmea_frame list"
  delivered :: "nat \<Rightarrow> nmea_frame list"

fun traced_step ::
    "app_config \<Rightarrow> 'q msgq_ops \<Rightarrow> bridge_event \<Rightarrow> 'q traced \<Rightarrow> 'q traced" where
  "traced_step c Q (Publish ptr n) t =
     (case nmea_bridge_publish_frame c Q ptr n (bridge_of t) of
        (Inl _, b) \<Rightarrow> t\<lparr>bridge_of := b\<rparr>
      | (Inr _, b) \<Rightarrow>
          t\<lparr>bridge_of := b, accepted := accepted t @ [make_frame (the ptr) n]\<rparr>)"
| "traced_step c Q Dispatch t =
     (case (fst (k_msgq_get Q K_FOREVER (ingest_msgq (bridge_of t))),
            dispatcher_iteration Q (bridge_of t)) of
        (Inr f, Some b) \<Rightarrow>
          t\<lparr>bridge_of := b, dispatched := dispatched t @ [f],
            seen := (\<lambda>i. if i < length (sinks (bridge_of t)) \<and> slot_active (sinks (bridge_of t) ! i)
                         then seen t i @ [f] else seen t i)\<rparr>
      | _ \<Rightarrow> t)"
| "traced_step c Q (Open name) t =
     (case nmea_bridge_sink_open Q (Some \<lparr>sink_id = - 1\<rparr>) name (bridge_of t) of
        (Inr _, Some s, b) \<Rightarrow>
          t\<lparr>bridge_of := b, seen := (seen t)(nat (sink_id s) := []),
            delivered := (delivered t)(nat (sink_id s) := [])\<rparr>
      | (_, _, b) \<Rightarrow> t\<lparr>bridge_of := b\<rparr>)"
| "traced_step c Q (Close i) t =
     t\<lparr>bridge_of := snd (nmea_bridge_sink_close Q (Some \<lparr>sink_id = i\<rparr>) (bridge_of t))\<rparr>"
| "traced_step c Q (Take i timeout) t =
     (case nmea_bridge_sink_take Q (Some \<lparr>sink_id = i\<rparr>) False timeout (bridge_of t) of
        (Inl _, b) \<Rightarrow> t\<lparr>bridge_of := b\<rparr>
      | (Inr f, b) \<Rightarrow>
          t\<lparr>bridge_of := b,
            delivered := (delivered t)(nat i := delivered t (nat i) @ [f])\<rparr>)"

text \<open>The state after \<open>nmea_bridge_init\<close>, and a run from it.\<close>

definition traced_start :: "app_config \<Rightarrow> 'q msgq_ops \<Rightarrow> 'q \<Rightarrow> 'q traced" where
  "traced_start c Q q0 =
     \<lparr>bridge_of = nmea_bridge_init c Q (bridge_storage c Q q0),
      accepted = [], dispatched = [], seen = (\<lambda>_. []), delivered = (\<lambda>_. [])\<rparr>"

definition traced_run ::
    "app_config \<Rightarrow> 'q msgq_ops \<Rightarrow> 'q \<Rightarrow> bridge_event list \<Rightarrow> 'q traced" where
  "traced_run c Q q0 es = fold (traced_step c Q) es (traced_start c Q q0)"

section \<open>The invariant of runs\<close>

text \<open>
  The queue contents of a slot together with what its owner has already taken is a
  subsequence of what the sink was offered, which is a suffix of what was dispatched; the
  32-bit counters are the lengths of these histories modulo \<open>2 ^ 32\<close>.
\<close>

definition slot_history ::
    "('q \<Rightarrow> nmea_frame list) \<Rightarrow> nmea_frame list \<Rightarrow> nmea_frame list \<Rightarrow> nmea_frame list
       \<Rightarrow> 'q sink_slot \<Rightarrow> bool" where
  "slot_history items disp sn dl sl \<longleftrightarrow>
     suffix sn disp \<and> subseq (dl @ items (slot_msgq sl)) sn \<and>
     queued (slot_stats sl) = word_of_nat (length sn) \<and>
     consumed (slot_stats sl) = word_of_nat (length dl)"

definition ingest_history ::
    "('q \<Rightarrow> nmea_frame list) \<Rightarrow> 'q traced \<Rightarrow> bool" where
  "ingest_history items t \<longleftrightarrow>
     subseq (dispatched t @ items (ingest_msgq (bridge_of t))) (accepted t) \<and>
     frames_in (bridge_stats (bridge_of t)) = word_of_nat (length (accepted t)) \<and>
     frames_in (bridge_stats (bridge_of t)) =
       ingest_dropped_oldest (bridge_stats (bridge_of t)) +
       word_of_nat (length (dispatched t @ items (ingest_msgq (bridge_of t))))"

definition traced_inv ::
    "app_config \<Rightarrow> ('q \<Rightarrow> nmea_frame list) \<Rightarrow> ('q \<Rightarrow> nat) \<Rightarrow> 'q traced \<Rightarrow> bool" where
  "traced_inv c items depth t \<longleftrightarrow>
     bridge_wf c items depth (bridge_of t) \<and> ingest_history items t \<and>
     (\<forall>i. subseq (delivered t i) (accepted t)) \<and>
     (\<forall>i < nmea_sinks_max c. slot_active (sinks (bridge_of t) ! i) \<longrightarrow>
        slot_history items (dispatched t) (seen t i) (delivered t i) (sinks (bridge_of t) ! i))"

lemma traced_invD:
  assumes "traced_inv c items depth t"
  shows "bridge_wf c items depth (bridge_of t)" and "ingest_history items t"
    and "subseq (delivered t i) (accepted t)"
    and "i < nmea_sinks_max c \<Longrightarrow> slot_active (sinks (bridge_of t) ! i) \<Longrightarrow>
      slot_history items (dispatched t) (seen t i) (delivered t i) (sinks (bridge_of t) ! i)"
  using assms by (auto simp: traced_inv_def)

context bridge_on_queue
begin

abbreviation tinv :: "'q traced \<Rightarrow> bool" where
  "tinv t \<equiv> traced_inv c items depth t"

lemma start_inv: "tinv (traced_start c Q q0)"
  using init_wf [of q0]
  by (auto simp: traced_inv_def traced_start_def ingest_history_def nmea_bridge_init_def
      bridge_storage_def zero_bridge_stats_def)

lemma publish_inv:
  assumes "tinv t"
  shows "tinv (traced_step c Q (Publish ptr n) t)"
proof (cases "ptr = None \<or> n = 0 \<or> nmea_frame_max_len c < n")
  case True
  then show ?thesis
    using assms by (auto simp: nmea_bridge_publish_frame_def traced_inv_def ingest_history_def)
next
  case False
  then obtain bytes where bytes: "ptr = Some bytes" "0 < n" "n \<le> nmea_frame_max_len c" by auto
  let ?b = "bridge_of t" and ?f = "make_frame bytes n"
  note wf = traced_invD(1) [OF assms]
  obtain q where p: "nmea_bridge_publish_frame c Q ptr n ?b =
       (success, ?b\<lparr>ingest_msgq := q,
          bridge_stats := (bridge_stats ?b)
            \<lparr>frames_in := frames_in (bridge_stats ?b) + 1,
             ingest_dropped_oldest := ingest_dropped_oldest (bridge_stats ?b) +
               (if length (items (ingest_msgq ?b)) = ingest_queue_depth c then 1 else 0)\<rparr>\<rparr>)"
    and q: "items q = take_last (ingest_queue_depth c) (items (ingest_msgq ?b) @ [?f])"
    using publish_effect [OF wf bytes(2,3), of bytes] bytes(1) by metis
  have "wf (bridge_of (traced_step c Q (Publish ptr n) t))"
    using publish_wf [OF wf, of ptr n] p by simp
  moreover have "subseq (dispatched t @ items q) (accepted t @ [?f])"
  proof -
    have "subseq (dispatched t @ items q) (dispatched t @ items (ingest_msgq ?b) @ [?f])"
      unfolding q by (intro list_emb_append_mono subseq_take_last) simp
    moreover have "subseq ((dispatched t @ items (ingest_msgq ?b)) @ [?f]) (accepted t @ [?f])"
      using traced_invD(2) [OF assms] by (intro subseq_snoc) (simp add: ingest_history_def)
    ultimately show ?thesis by (metis append_assoc subseq_order.trans)
  qed
  moreover have "length (items q) +
      (if length (items (ingest_msgq ?b)) = ingest_queue_depth c then 1 else 0) =
      Suc (length (items (ingest_msgq ?b)))"
    using bridge_wfD(3) [OF wf] by (auto simp: q min_def)
  ultimately show ?thesis
    using assms p bytes(1)
    by (auto simp: traced_inv_def ingest_history_def intro: subseq_grow split: if_splits)
qed

lemma dispatch_inv:
  assumes "tinv t"
  shows "tinv (traced_step c Q Dispatch t)"
proof (cases rule: get_cases [of K_FOREVER "ingest_msgq (bridge_of t)"])
  case (empty e q')
  then show ?thesis using assms by simp
next
  case got: (frame f q')
  let ?b = "bridge_of t"
  define t' where "t' = traced_step c Q Dispatch t"
  note wf = traced_invD(1) [OF assms]
  note d = dispatcher_iteration_Some [OF got(1)]
  have t: "bridge_of t' = ?b\<lparr>ingest_msgq := q', sinks := map (pushed_slot Q f) (sinks ?b),
        bridge_stats := dispatch_stats Q f ?b\<rparr>" "dispatched t' = dispatched t @ [f]" "accepted t' = accepted t"
      "delivered t' = delivered t"
      "seen t' i = (if i < length (sinks ?b) \<and> slot_active (sinks ?b ! i)
         then seen t i @ [f] else seen t i)" for i
    using got(1) d by (simp_all add: t'_def)
  have "wf (bridge_of t')"
    using dispatcher_iteration_wf [OF wf d] by (simp only: t)
  moreover have "ingest_history items t'"
    using traced_invD(2) [OF assms] got(2) by (auto simp: ingest_history_def t dispatch_stats_def)
  moreover have "slot_history items (dispatched t') (seen t' i) (delivered t' i)
      (sinks (bridge_of t') ! i)"
    if i: "i < nmea_sinks_max c" and act: "slot_active (sinks (bridge_of t') ! i)" for i
  proof -
    have l: "i < length (sinks ?b)" and a: "slot_active (sinks ?b ! i)"
      using i act bridge_wfD(1) [OF wf] by (auto simp: t)
    note h = traced_invD(4) [OF assms i a]
    note e = pushed_slot_effect [OF bridge_wfD(4) [OF wf i] a, of f]
    have "subseq (delivered t i @ items (slot_msgq (pushed_slot Q f (sinks ?b ! i))))
        ((delivered t i @ items (slot_msgq (sinks ?b ! i))) @ [f])"
      unfolding e append_assoc by (intro list_emb_append_mono subseq_take_last) simp
    also have "subseq \<dots> (seen t i @ [f])"
      using h by (intro subseq_snoc) (simp add: slot_history_def)
    finally show ?thesis
      using h l a e(4) by (simp add: t slot_history_def add.commute)
  qed
  ultimately have "tinv t'"
    using assms by (auto simp: traced_inv_def t)
  then show ?thesis by (simp only: t'_def)
qed

lemma open_inv:
  assumes "tinv t"
  shows "tinv (traced_step c Q (Open name) t)"
proof (cases "first_free slot_active 0 (sinks (bridge_of t))")
  case None
  then show ?thesis
    using assms by (simp add: nmea_bridge_sink_open_def)
next
  case (Some k)
  let ?b = "bridge_of t"
  have k: "k < nmea_sinks_max c"
    using first_free_Some [OF Some] bridge_wfD(1) [OF traced_invD(1) [OF assms]] by simp
  have "wf (bridge_of (traced_step c Q (Open name) t))"
    using open_wf [OF traced_invD(1) [OF assms], of "Some \<lparr>sink_id = - 1\<rparr>" name] Some
    by (simp add: nmea_bridge_sink_open_def)
  moreover have "slot_history items disp [] [] (claim_slot Q name (sinks ?b ! k))" for disp
    by (simp add: slot_history_def claim_slot_def zero_sink_stats_def)
  ultimately show ?thesis
    using assms Some k bridge_wfD(1) [OF traced_invD(1) [OF assms]]
    by (auto simp: traced_inv_def ingest_history_def nmea_bridge_sink_open_def nth_list_update)
qed

lemma close_inv:
  assumes "tinv t"
  shows "tinv (traced_step c Q (Close i) t)"
proof -
  have "wf (bridge_of (traced_step c Q (Close i) t))"
    using close_wf [OF traced_invD(1) [OF assms], of "Some \<lparr>sink_id = i\<rparr>"] by simp
  moreover have "\<not> slot_active (release_slot Q sl)" for sl :: "'q sink_slot"
    by (simp add: release_slot_def)
  ultimately show ?thesis
    using assms bridge_wfD(1) [OF traced_invD(1) [OF assms]]
    by (auto simp: traced_inv_def ingest_history_def nmea_bridge_sink_close_def Let_def
        nth_list_update split: if_splits)
qed

lemma take_inv:
  assumes "tinv t"
  shows "tinv (traced_step c Q (Take i timeout) t)"
proof -
  let ?b = "bridge_of t" and ?s = "\<lparr>sink_id = i\<rparr>" and ?n = "nat i"
  note wf = traced_invD(1) [OF assms]
  have w: "wf (bridge_of (traced_step c Q (Take i timeout) t))"
    using take_wf [OF wf, of "Some ?s" False timeout]
    by (auto split: prod.split sum.split)
  show ?thesis
  proof (cases "i < 0 \<or> int (nmea_sinks_max c) \<le> i \<or> \<not> slot_active (sinks ?b ! ?n)")
    case True
    then obtain e where "nmea_bridge_sink_take Q (Some ?s) False timeout ?b = (Inl e, ?b)"
      using take_rejected [OF wf, of ?s timeout] by auto
    then show ?thesis using assms by simp
  next
    case False
    then have n: "?n < nmea_sinks_max c" and act: "slot_active (sinks ?b ! ?n)"
      and ge: "0 \<le> sink_id ?s" and id: "nat (sink_id ?s) = ?n" by auto
    note len = bridge_wfD(1) [OF wf]
    note h = traced_invD(4) [OF assms n act]
    from wf ge id n act show ?thesis
    proof (cases rule: take_active_cases [where t = timeout])
      case (empty e sl)
      then show ?thesis using assms h w len n
        by (auto simp: traced_inv_def ingest_history_def slot_history_def nth_list_update)
    next
      case got: (frame f sl)
      have sub: "subseq ((delivered t ?n @ [f]) @ items (slot_msgq sl)) (seen t ?n)"
        using h got(2) by (simp add: slot_history_def)
      have "subseq (seen t ?n) (dispatched t)"
        using h by (simp add: slot_history_def suffix_imp_subseq)
      moreover have "subseq (dispatched t) (accepted t)"
        using traced_invD(2) [OF assms] by (auto simp: ingest_history_def dest: subseq_appendD1)
      ultimately have "subseq (delivered t ?n @ [f]) (accepted t)"
        using sub by (meson subseq_appendD1 subseq_order.trans)
      then show ?thesis using assms h w len n got sub
        by (auto simp: traced_inv_def ingest_history_def slot_history_def nth_list_update
            add.commute)
    qed
  qed
qed

lemma step_tinv: "tinv t \<Longrightarrow> tinv (traced_step c Q e t)"
  by (cases e) (simp_all only: publish_inv dispatch_inv open_inv close_inv take_inv)

end

sublocale bridge_on_queue \<subseteq> runs: invariant_machine "traced_step c Q" "traced_inv c items depth"
  by unfold_locales (rule step_tinv)

context bridge_on_queue
begin

lemma run_tinv: "tinv (traced_run c Q q0 es)"
  unfolding traced_run_def by (rule runs.run_inv) (rule start_inv)

end

interpretation ref_bridge: bridge_on_queue ref_msgq snd fst default_config
  by unfold_locales (rule default_config_ok)

end
