(* ===== verification/Bridge_Properties.thy ===== *)
theory Bridge_Properties
  imports Bridge_Trace
begin

text \<open>
  The properties of the bridge, each with a witness that evaluates it on the bounded list
  queue \<open>ref_msgq\<close> in the default configuration. Helper lemmas come first.
\<close>

section \<open>From hypotheses to the library\<close>

lemma bridge_on_queueI: "kmsgq Q items depth \<Longrightarrow> config_ok c \<Longrightarrow> bridge_on_queue Q items depth c"
  by (simp add: bridge_on_queue_def bridge_on_queue_axioms_def)

lemma traced_run_inv:
  assumes "kmsgq Q items depth" and "config_ok c"
  shows "traced_inv c items depth (traced_run c Q q0 es)"
  by (rule bridge_on_queue.run_tinv [OF bridge_on_queueI [OF assms]])

lemma loss_count:
  assumes "w = word_of_nat a + (d :: u32) + word_of_nat b" and "w = word_of_nat n"
    and "a + b \<le> n" and "n < 2 ^ 32"
  shows "unat d + a + b = n"
proof -
  have "d = word_of_nat n - word_of_nat a - word_of_nat b"
    using assms(1,2) by (simp add: algebra_simps)
  also have "\<dots> = word_of_nat (n - (a + b))"
    using assms(3) by (simp add: of_nat_diff)
  finally have "unat d = n - (a + b)"
    using assms(4) by (simp add: unat_of_nat)
  then show ?thesis using assms(3) by simp
qed

lemma accepted_mono_step:
  "f \<in> set (accepted (traced_step c Q e t)) \<Longrightarrow> f \<in> set (accepted t) \<or>
     (\<exists>bytes n. e = Publish (Some bytes) n \<and> 0 < n \<and> n \<le> nmea_frame_max_len c \<and>
        f = make_frame bytes n)"
  by (cases e) (auto simp: nmea_bridge_publish_frame_def Let_def split: sum.splits prod.splits
      option.splits if_splits)

lemma accepted_mono:
  "f \<in> set (accepted (fold (traced_step c Q) es t)) \<Longrightarrow> f \<in> set (accepted t) \<or>
     (\<exists>bytes n. Publish (Some bytes) n \<in> set es \<and> 0 < n \<and> n \<le> nmea_frame_max_len c \<and>
        f = make_frame bytes n)"
proof (induction es arbitrary: t)
  case Nil
  then show ?case by simp
next
  case (Cons e es)
  then have "f \<in> set (accepted (traced_step c Q e t)) \<or>
     (\<exists>bytes n. Publish (Some bytes) n \<in> set es \<and> 0 < n \<and> n \<le> nmea_frame_max_len c \<and>
        f = make_frame bytes n)" by simp
  then show ?case using accepted_mono_step [of f c Q e t] by (metis list.set_intros)
qed

lemma make_frame_exact:
  "n \<le> 512 \<Longrightarrow> make_frame bytes n = \<lparr>len = word_of_nat n, data = take n bytes\<rparr> \<and>
     unat (len (make_frame bytes n)) = n"
  by (simp add: make_frame_def Let_def unat_of_nat)

section \<open>Delivery\<close>

text \<open>
  C3: Frames are delivered in order. In every run of the bridge, whatever the interleaving of
  publishing, dispatching, opening, closing and draining, the frames a sink has delivered
  since it was last opened form a subsequence of the frames accepted by
  \<open>nmea_bridge_publish_frame\<close>: never reordered, duplicated or invented.
\<close>

theorem delivered_in_order:
  assumes "kmsgq Q items depth" and "config_ok c"
  shows "subseq (delivered (traced_run c Q q0 es) i) (accepted (traced_run c Q q0 es))"
  by (rule traced_invD(3) [OF traced_run_inv [OF assms]])

text \<open>
  The witness: a run in which a sink is opened, two frames are published and dispatched, and
  both are taken.
\<close>

theorem delivered_in_order_witness:
  "let t = traced_run default_config ref_msgq (0, [])
       [Open None, Publish (Some [36, 10]) 2, Publish (Some [33, 10]) 2, Dispatch, Dispatch,
        Take 0 K_NO_WAIT, Take 0 K_NO_WAIT]
   in subseq (delivered t 0) (accepted t) \<and>
      delivered t 0 = [\<lparr>len = 2, data = [36, 10]\<rparr>, \<lparr>len = 2, data = [33, 10]\<rparr>]"
  unfolding Let_def
  by (rule conjI [OF delivered_in_order [OF ref.kmsgq_axioms default_config_ok]])
    code_simp

text \<open>
  C18: Delivered frames are complete. Every frame a sink delivers is a published one, byte for
  byte: its length field is the published length (the 16-bit field does not truncate it) and
  its data are the published bytes, between 1 and \<open>NMEA_FRAME_MAX_LEN\<close> of them.
\<close>

theorem delivered_frames_complete:
  assumes "kmsgq Q items depth" and "config_ok c"
    and "f \<in> set (delivered (traced_run c Q q0 es) i)"
  shows "\<exists>bytes n. Publish (Some bytes) n \<in> set es \<and> 0 < n \<and> n \<le> nmea_frame_max_len c \<and>
      unat (len f) = n \<and> data f = take n bytes"
proof -
  have "subseq (delivered (traced_run c Q q0 es) i) (accepted (traced_run c Q q0 es))"
    by (rule traced_invD(3) [OF traced_run_inv [OF assms(1,2)]])
  then have "f \<in> set (accepted (traced_run c Q q0 es))"
    using assms(3) by (rule subseq_in_set)
  then obtain bytes n where p: "Publish (Some bytes) n \<in> set es" "0 < n"
      "n \<le> nmea_frame_max_len c" "f = make_frame bytes n"
    unfolding traced_run_def by (auto dest!: accepted_mono simp: traced_start_def)
  then show ?thesis
    using make_frame_exact [of n bytes] config_okD(4) [OF assms(2)] by auto
qed

theorem delivered_frames_complete_witness:
  "\<exists>bytes n. Publish (Some bytes) n \<in> set
        [Open None, Publish (Some [36, 71, 10]) 3, Dispatch, Take 0 K_NO_WAIT] \<and>
      0 < n \<and> n \<le> nmea_frame_max_len default_config \<and>
      unat (len \<lparr>len = 3, data = [36, 71, 10]\<rparr>) = n \<and>
      data \<lparr>len = 3, data = [36, 71, 10]\<rparr> = take n bytes"
proof (rule delivered_frames_complete [OF ref.kmsgq_axioms default_config_ok])
  show "\<lparr>len = 3, data = [36, 71, 10]\<rparr> \<in> set (delivered (traced_run default_config ref_msgq (0, [])
      [Open None, Publish (Some [36, 71, 10]) 3, Dispatch, Take 0 K_NO_WAIT]) 0)"
    by code_simp
qed

text \<open>
  C16: Loss is accounted for. For an open sink, the \<open>dropped_oldest\<close> counter is exactly the
  number of frames it was offered since it was opened and that are neither delivered nor
  queued, as long as fewer than \<open>2 ^ 32\<close> were offered; while it reads 0, the sink has
  delivered or still holds every frame dispatched since it was opened.
\<close>

theorem sink_loss_accounted:
  fixes t :: "'q traced"
  assumes "kmsgq Q items depth" and "config_ok c" and "t = traced_run c Q q0 es"
    and "i < nmea_sinks_max c" and "slot_active (sinks (bridge_of t) ! i)"
    and "length (seen t i) < 2 ^ 32"
  shows "unat (dropped_oldest (slot_stats (sinks (bridge_of t) ! i))) + length (delivered t i) +
           length (items (slot_msgq (sinks (bridge_of t) ! i))) = length (seen t i) \<and>
         (dropped_oldest (slot_stats (sinks (bridge_of t) ! i)) = 0 \<longrightarrow>
           delivered t i @ items (slot_msgq (sinks (bridge_of t) ! i)) = seen t i)"
proof -
  let ?sl = "sinks (bridge_of t) ! i"
  have inv: "traced_inv c items depth t"
    unfolding assms(3) by (rule traced_run_inv [OF assms(1,2)])
  have "slot_wf c items depth ?sl" by (rule bridge_wfD(4) [OF traced_invD(1) [OF inv] assms(4)])
  then have bal: "slot_balanced items ?sl" using assms(5) by (simp add: slot_wf_def)
  have h: "slot_history items (dispatched t) (seen t i) (delivered t i) ?sl"
    by (rule traced_invD(4) [OF inv assms(4,5)])
  then have sub: "subseq (delivered t i @ items (slot_msgq ?sl)) (seen t i)"
    by (simp add: slot_history_def)
  have count: "unat (dropped_oldest (slot_stats ?sl)) + length (delivered t i) +
      length (items (slot_msgq ?sl)) = length (seen t i)"
    by (rule loss_count [OF _ _ _ assms(6), where w = "queued (slot_stats ?sl)"])
      (use bal h list_emb_length [OF sub] in \<open>auto simp: slot_balanced_def slot_history_def\<close>)
  moreover have "delivered t i @ items (slot_msgq ?sl) = seen t i"
    if "dropped_oldest (slot_stats ?sl) = 0"
    using count that sub by (intro subseq_same_length) simp_all
  ultimately show ?thesis by blast
qed

theorem sink_loss_accounted_witness:
  "let t = traced_run small_config ref_msgq (0, [])
       [Open None, Publish (Some [36]) 1, Dispatch, Publish (Some [33]) 1, Dispatch,
        Publish (Some [10]) 1, Dispatch, Take 0 K_NO_WAIT]
   in unat (dropped_oldest (slot_stats (sinks (bridge_of t) ! 0))) + length (delivered t 0) +
        length (snd (slot_msgq (sinks (bridge_of t) ! 0))) = length (seen t 0) \<and>
      dropped_oldest (slot_stats (sinks (bridge_of t) ! 0)) = 1"
proof -
  let ?es = "[Open None, Publish (Some [36]) 1, Dispatch, Publish (Some [33]) 1, Dispatch,
        Publish (Some [10]) 1, Dispatch, Take 0 K_NO_WAIT]"
  let ?t = "traced_run small_config ref_msgq (0, []) ?es"
  have "0 < nmea_sinks_max small_config" by code_simp
  moreover have "slot_active (sinks (bridge_of ?t) ! 0)" by code_simp
  moreover have "length (seen ?t 0) = 3" by code_simp
  then have "length (seen ?t 0) < 2 ^ 32" by simp
  ultimately have "unat (dropped_oldest (slot_stats (sinks (bridge_of ?t) ! 0))) +
      length (delivered ?t 0) + length (snd (slot_msgq (sinks (bridge_of ?t) ! 0))) =
      length (seen ?t 0)"
    using sink_loss_accounted [OF ref.kmsgq_axioms small_config_ok refl] by blast
  moreover have "dropped_oldest (slot_stats (sinks (bridge_of ?t) ! 0)) = 1" by code_simp
  ultimately show ?thesis unfolding Let_def ..
qed

text \<open>
  C17: Loss before the dispatcher is accounted for. The ingest queue never exceeds its depth,
  and \<open>ingest_dropped_oldest\<close> is exactly the number of accepted frames that were neither
  dispatched nor are still queued, as long as fewer than \<open>2 ^ 32\<close> frames were accepted.
\<close>

theorem ingest_loss_accounted:
  fixes t :: "'q traced"
  assumes "kmsgq Q items depth" and "config_ok c" and "t = traced_run c Q q0 es"
    and "length (accepted t) < 2 ^ 32"
  shows "unat (frames_in (bridge_stats (bridge_of t))) = length (accepted t) \<and>
         length (items (ingest_msgq (bridge_of t))) \<le> ingest_queue_depth c \<and>
         unat (ingest_dropped_oldest (bridge_stats (bridge_of t))) + length (dispatched t) +
           length (items (ingest_msgq (bridge_of t))) = length (accepted t)"
proof -
  have inv: "traced_inv c items depth t"
    unfolding assms(3) by (rule traced_run_inv [OF assms(1,2)])
  have h: "ingest_history items t" by (rule traced_invD(2) [OF inv])
  then have sub: "subseq (dispatched t @ items (ingest_msgq (bridge_of t))) (accepted t)"
    by (simp add: ingest_history_def)
  have "unat (ingest_dropped_oldest (bridge_stats (bridge_of t))) + length (dispatched t) +
      length (items (ingest_msgq (bridge_of t))) = length (accepted t)"
    by (rule loss_count [OF _ _ _ assms(4), where w = "frames_in (bridge_stats (bridge_of t))"])
      (use h list_emb_length [OF sub] in \<open>auto simp: ingest_history_def algebra_simps\<close>)
  moreover have "unat (frames_in (bridge_stats (bridge_of t))) = length (accepted t)"
    using h assms(4) by (auto simp: ingest_history_def unat_of_nat)
  ultimately show ?thesis using bridge_wfD(3) [OF traced_invD(1) [OF inv]] by simp
qed

theorem ingest_loss_accounted_witness:
  "let t = traced_run small_config ref_msgq (0, []) (replicate 3 (Publish (Some [10]) 1))
   in unat (ingest_dropped_oldest (bridge_stats (bridge_of t))) + length (dispatched t) +
        length (snd (ingest_msgq (bridge_of t))) = length (accepted t) \<and>
      ingest_dropped_oldest (bridge_stats (bridge_of t)) = 1"
proof -
  let ?es = "replicate 3 (Publish (Some [10]) 1)"
  let ?t = "traced_run small_config ref_msgq (0, []) ?es"
  have "length (accepted ?t) = 3" by code_simp
  then have "length (accepted ?t) < 2 ^ 32" by simp
  then have "unat (ingest_dropped_oldest (bridge_stats (bridge_of ?t))) + length (dispatched ?t) +
        length (snd (ingest_msgq (bridge_of ?t))) = length (accepted ?t)"
    using ingest_loss_accounted [OF ref.kmsgq_axioms small_config_ok refl] by blast
  moreover have "ingest_dropped_oldest (bridge_stats (bridge_of ?t)) = 1" by code_simp
  ultimately show ?thesis unfolding Let_def ..
qed

section \<open>The operations\<close>

text \<open>
  C19: A full queue forgets its oldest frames and nothing else. Pushing any sequence of frames
  with \<open>put_drop_oldest\<close> into an empty queue of \<open>n\<close> slots leaves the last \<open>n\<close> of them in
  order, and the drop counter has grown by exactly the number that did not fit.
\<close>

theorem put_drop_oldest_keeps_newest:
  assumes "kmsgq Q items depth" and "0 < n"
    and "foldl (\<lambda>b f. put_drop_oldest Q (fst b) f (snd b)) (k_msgq_init Q n, 0) fs = (q, d)"
  shows "items q = take_last n fs \<and> d = word_of_nat (length fs - n)"
proof -
  note laws = kmsgq.init_items [OF assms(1)] kmsgq.init_depth [OF assms(1)]
  note view = drop_oldest_buffer.pushes_view [OF kmsgq.dropping_buffer [OF assms(1)],
      of "(k_msgq_init Q n, 0)" fs]
  show ?thesis
    using view kmsgq.pushes_count [OF assms(1), of "(k_msgq_init Q n, 0)" fs] assms(2,3)
    by (simp add: laws)
qed

theorem put_drop_oldest_keeps_newest_witness:
  "snd (2 :: nat, [\<lparr>len = 1, data = [66]\<rparr>, \<lparr>len = 1, data = [67]\<rparr>]) =
     take_last 2 [\<lparr>len = 1, data = [65]\<rparr>, \<lparr>len = 1, data = [66]\<rparr>, \<lparr>len = 1, data = [67]\<rparr>] \<and>
   (1 :: u32) = word_of_nat (length [\<lparr>len = 1, data = [65 :: u8]\<rparr>, \<lparr>len = 1, data = [66]\<rparr>,
     \<lparr>len = 1, data = [67]\<rparr>] - 2)"
proof (rule put_drop_oldest_keeps_newest [OF ref.kmsgq_axioms])
  show "foldl (\<lambda>b f. put_drop_oldest ref_msgq (fst b) f (snd b)) (k_msgq_init ref_msgq 2, 0)
      [\<lparr>len = 1, data = [65]\<rparr>, \<lparr>len = 1, data = [66]\<rparr>, \<lparr>len = 1, data = [67]\<rparr>] =
      ((2, [\<lparr>len = 1, data = [66]\<rparr>, \<lparr>len = 1, data = [67]\<rparr>]), 1)"
    by code_simp
qed simp

text \<open>
  Publishing on every branch. A \<open>NULL\<close> or empty frame is refused with \<open>-EINVAL\<close>, one
  longer than \<open>NMEA_FRAME_MAX_LEN\<close> with \<open>-EMSGSIZE\<close>; both are counted and touch nothing
  else. Any other frame is accepted and counted, and becomes the newest entry of the ingest
  queue, at the price of the oldest entry (counted) when the queue was full. The sinks are
  never touched.
\<close>

theorem publish_frame_spec:
  assumes "kmsgq Q items depth" and "config_ok c" and "bridge_wf c items depth b"
    and "nmea_bridge_publish_frame c Q ptr n b = (r, b')"
  shows "sinks b' = sinks b \<and>
    (if ptr = None \<or> n = 0
     then r = failure EINVAL \<and> ingest_msgq b' = ingest_msgq b \<and>
       bridge_stats b' = (bridge_stats b)\<lparr>publish_invalid := publish_invalid (bridge_stats b) + 1\<rparr>
     else if nmea_frame_max_len c < n
     then r = failure EMSGSIZE \<and> ingest_msgq b' = ingest_msgq b \<and>
       bridge_stats b' = (bridge_stats b)\<lparr>publish_oversize := publish_oversize (bridge_stats b) + 1\<rparr>
     else r = success \<and>
       items (ingest_msgq b') = take_last (ingest_queue_depth c)
         (items (ingest_msgq b) @ [\<lparr>len = word_of_nat n, data = take n (the ptr)\<rparr>]) \<and>
       bridge_stats b' = (bridge_stats b)
         \<lparr>frames_in := frames_in (bridge_stats b) + 1,
          ingest_dropped_oldest := ingest_dropped_oldest (bridge_stats b) +
            (if length (items (ingest_msgq b)) = ingest_queue_depth c then 1 else 0)\<rparr>)"
proof (cases "ptr = None \<or> n = 0 \<or> nmea_frame_max_len c < n")
  case True
  then show ?thesis using assms(4) by (auto simp: nmea_bridge_publish_frame_def)
next
  case False
  then obtain bytes where bytes: "ptr = Some bytes" "0 < n" "n \<le> nmea_frame_max_len c" by auto
  have frame: "make_frame bytes n = \<lparr>len = word_of_nat n, data = take n bytes\<rparr>"
    using make_frame_exact [of n bytes] config_okD(4) [OF assms(2)] bytes(3) by simp
  show ?thesis
    by (rule bridge_on_queue.publish_effect [OF bridge_on_queueI [OF assms(1,2)] assms(3)
          bytes(2,3), of bytes]) (use assms(4) bytes in \<open>auto simp: frame\<close>)
qed

theorem publish_frame_spec_witness:
  "let b = nmea_bridge_init default_config ref_msgq (bridge_storage default_config ref_msgq (0, []));
       (r, b') = nmea_bridge_publish_frame default_config ref_msgq (Some [36, 10]) 2 b
   in r = success \<and> snd (ingest_msgq b') = [\<lparr>len = 2, data = [36, 10]\<rparr>]"
proof -
  let ?b = "nmea_bridge_init default_config ref_msgq (bridge_storage default_config ref_msgq (0, []))"
  have wf: "bridge_wf default_config snd fst ?b" by (rule ref_bridge.init_wf)
  have "fst (nmea_bridge_publish_frame default_config ref_msgq (Some [36, 10]) 2 ?b) = success"
    and "snd (ingest_msgq (snd (nmea_bridge_publish_frame default_config ref_msgq
        (Some [36, 10]) 2 ?b))) =
      take_last (ingest_queue_depth default_config)
        (snd (ingest_msgq ?b) @ [\<lparr>len = word_of_nat 2, data = take 2 (the (Some [36, 10]))\<rparr>])"
    using publish_frame_spec [OF ref.kmsgq_axioms default_config_ok wf
        prod.collapse [symmetric, of "nmea_bridge_publish_frame default_config ref_msgq
          (Some [36, 10]) 2 ?b"]]
    by (simp_all add: default_config_def)
  then show ?thesis
    by (simp add: split_beta nmea_bridge_init_def bridge_storage_def ref_msgq_def default_config_def)
qed

text \<open>
  One dispatch fans out to every sink alike. When the ingest queue is not empty the
  dispatcher takes its oldest frame and appends it to the queue of every active sink, each of
  which loses only its own oldest frame, and only if it was full: a slow consumer never costs
  another sink a frame. Inactive slots are untouched, \<open>sink_dropped_oldest\<close> grows by the
  number of full sinks, and \<open>publish_no_sinks\<close> counts the frame when no sink was active.
\<close>

theorem dispatch_fans_out:
  assumes "kmsgq Q items depth" and "config_ok c" and "bridge_wf c items depth b"
    and "items (ingest_msgq b) = f # rest"
  shows "\<exists>b'. dispatcher_iteration Q b = Some b' \<and> items (ingest_msgq b') = rest \<and>
    length (sinks b') = length (sinks b) \<and>
    (\<forall>i < length (sinks b).
       slot_active (sinks b' ! i) = slot_active (sinks b ! i) \<and>
       (if slot_active (sinks b ! i)
        then items (slot_msgq (sinks b' ! i)) =
               take_last (sink_queue_depth c) (items (slot_msgq (sinks b ! i)) @ [f]) \<and>
             queued (slot_stats (sinks b' ! i)) = queued (slot_stats (sinks b ! i)) + 1
        else sinks b' ! i = sinks b ! i)) \<and>
    bridge_stats b' = (bridge_stats b)
      \<lparr>sink_dropped_oldest := sink_dropped_oldest (bridge_stats b) +
         word_of_nat (length (filter (\<lambda>sl. slot_active sl \<and>
           length (items (slot_msgq sl)) = sink_queue_depth c) (sinks b))),
       publish_no_sinks := publish_no_sinks (bridge_stats b) +
         (if \<exists>sl \<in> set (sinks b). slot_active sl then 0 else 1)\<rparr>"
proof -
  note B = bridge_on_queueI [OF assms(1,2)]
  obtain q where g: "k_msgq_get Q K_FOREVER (ingest_msgq b) = (Inr f, q)" "items q = rest"
    using kmsgq.get_some [OF assms(1,4), of K_FOREVER]
    by (cases "k_msgq_get Q K_FOREVER (ingest_msgq b)") auto
  have drops: "(\<Sum>sl\<leftarrow>sls. slot_drops Q f sl) =
      word_of_nat (length (filter (\<lambda>sl. slot_active sl \<and>
        length (items (slot_msgq sl)) = sink_queue_depth c) sls))"
    if "\<forall>sl \<in> set sls. slot_wf c items depth sl" for sls
    using that
  proof (induction sls)
    case Nil
    then show ?case by simp
  next
    case (Cons sl sls)
    then show ?case
      by (cases "slot_active sl") (simp_all add: bridge_on_queue.pushed_slot_effect(3) [OF B])
  qed
  have wf: "\<forall>sl \<in> set (sinks b). slot_wf c items depth sl"
    using assms(3) by (simp add: bridge_wf_def)
  note d = dispatcher_iteration_Some [OF g(1)]
  have eff: "items (slot_msgq (pushed_slot Q f sl)) =
        take_last (sink_queue_depth c) (items (slot_msgq sl) @ [f]) \<and>
      queued (slot_stats (pushed_slot Q f sl)) = queued (slot_stats sl) + 1"
    if "sl \<in> set (sinks b)" "slot_active sl" for sl
    using that wf bridge_on_queue.pushed_slot_effect(1,4) [OF B] by simp
  show ?thesis
    unfolding d
    by (intro exI conjI, rule refl) (simp_all add: eff g(2) dispatch_stats_def drops [OF wf])
qed

theorem dispatch_fans_out_witness:
  "\<exists>b'. dispatcher_iteration ref_msgq
      (bridge_of (traced_run small_config ref_msgq (0, []) [Open None, Publish (Some [10]) 1])) =
        Some b' \<and>
      snd (slot_msgq (sinks b' ! 0)) = take_last 2 ([] @ [\<lparr>len = 1, data = [10]\<rparr>])"
proof -
  let ?b = "bridge_of (traced_run small_config ref_msgq (0, []) [Open None, Publish (Some [10]) 1])"
  have "bridge_wf small_config snd fst ?b"
    by (rule traced_invD(1) [OF traced_run_inv [OF ref.kmsgq_axioms small_config_ok]])
  moreover have i: "snd (ingest_msgq ?b) = [\<lparr>len = 1, data = [10]\<rparr>]" by code_simp
  ultimately obtain b' where "dispatcher_iteration ref_msgq ?b = Some b'"
      "\<forall>i < length (sinks ?b). if slot_active (sinks ?b ! i)
         then snd (slot_msgq (sinks b' ! i)) = take_last (sink_queue_depth small_config)
           (snd (slot_msgq (sinks ?b ! i)) @ [\<lparr>len = 1, data = [10]\<rparr>]) else True"
    using dispatch_fans_out [OF ref.kmsgq_axioms small_config_ok, of ?b] by (auto split: if_splits)
  moreover have "0 < length (sinks ?b)" "slot_active (sinks ?b ! 0)"
      "snd (slot_msgq (sinks ?b ! 0)) = []" "sink_queue_depth small_config = 2"
    by (code_simp, code_simp, code_simp, code_simp)
  ultimately show ?thesis by (metis append_Nil)
qed

text \<open>
  C35: Opening a sink. It fails with \<open>-ENOMEM\<close>, changing nothing but the handle, exactly when
  every slot is taken; otherwise it takes the lowest free slot, which starts active, with the
  given name, an empty queue of the same depth and zeroed counters, and leaves every other
  slot, the ingest queue and the bridge counters alone.
\<close>

theorem sink_open_spec:
  assumes "kmsgq Q items depth" and "nmea_bridge_sink_open Q (Some s) name b = (r, s', b')"
  shows "if \<forall>sl \<in> set (sinks b). slot_active sl
         then r = failure ENOMEM \<and> s' = Some (s\<lparr>sink_id := - 1\<rparr>) \<and> b' = b
         else r = success \<and> (\<exists>k < length (sinks b). \<exists>sl.
           s' = Some (s\<lparr>sink_id := int k\<rparr>) \<and> \<not> slot_active (sinks b ! k) \<and>
           (\<forall>j < k. slot_active (sinks b ! j)) \<and> b' = b\<lparr>sinks := (sinks b)[k := sl]\<rparr> \<and>
           slot_active sl \<and> slot_name sl = name \<and> items (slot_msgq sl) = [] \<and>
           depth (slot_msgq sl) = depth (slot_msgq (sinks b ! k)) \<and>
           slot_stats sl = \<lparr>queued = 0, dropped_oldest = 0, consumed = 0\<rparr>)"
proof (cases "first_free slot_active 0 (sinks b)")
  case None
  then have "\<forall>sl \<in> set (sinks b). slot_active sl" by (simp add: first_free_None)
  then show ?thesis using assms(2) None by (simp add: nmea_bridge_sink_open_def)
next
  case (Some k)
  then have "\<not> (\<forall>sl \<in> set (sinks b). slot_active sl)"
    using first_free_None [of slot_active 0 "sinks b"] by simp
  moreover have k: "k < length (sinks b)" "\<not> slot_active (sinks b ! k)"
      "\<forall>j < k. slot_active (sinks b ! j)"
    using first_free_Some [OF Some] by simp_all
  moreover have res: "r = success" "s' = Some (s\<lparr>sink_id := int k\<rparr>)"
      "b' = b\<lparr>sinks := (sinks b)[k := claim_slot Q name (sinks b ! k)]\<rparr>"
    using assms(2) Some by (simp_all add: nmea_bridge_sink_open_def)
  moreover note laws = kmsgq.purge_items [OF assms(1)] kmsgq.purge_depth [OF assms(1)]
  have "\<exists>k < length (sinks b). \<exists>sl.
      s' = Some (s\<lparr>sink_id := int k\<rparr>) \<and> \<not> slot_active (sinks b ! k) \<and>
      (\<forall>j < k. slot_active (sinks b ! j)) \<and> b' = b\<lparr>sinks := (sinks b)[k := sl]\<rparr> \<and>
      slot_active sl \<and> slot_name sl = name \<and> items (slot_msgq sl) = [] \<and>
      depth (slot_msgq sl) = depth (slot_msgq (sinks b ! k)) \<and>
      slot_stats sl = \<lparr>queued = 0, dropped_oldest = 0, consumed = 0\<rparr>"
    by (intro exI [of _ k] exI [of _ "claim_slot Q name (sinks b ! k)"] conjI)
      (simp_all add: k res laws claim_slot_def zero_sink_stats_def)
  ultimately show ?thesis by simp
qed

theorem sink_open_spec_witness:
  "let b = nmea_bridge_init small_config ref_msgq (bridge_storage small_config ref_msgq (0, []));
       (r, s', b') = nmea_bridge_sink_open ref_msgq (Some \<lparr>sink_id = 7\<rparr>) (Some ''tcp'') b
   in r = success"
proof -
  let ?b = "nmea_bridge_init small_config ref_msgq (bridge_storage small_config ref_msgq (0, []))"
  have "\<not> (\<forall>sl \<in> set (sinks ?b). slot_active sl)" by code_simp
  then have "fst (nmea_bridge_sink_open ref_msgq (Some \<lparr>sink_id = 7\<rparr>) (Some ''tcp'') ?b) = success"
    using sink_open_spec [OF ref.kmsgq_axioms, of "\<lparr>sink_id = 7\<rparr>" "Some ''tcp''" ?b]
    by (metis prod.collapse)
  then show ?thesis by (simp add: split_beta)
qed

text \<open>
  C36: A closed sink is dead. Closing an open sink empties and frees its slot, leaves every
  other slot alone and invalidates the handle: a second close changes nothing, and a take
  through the handle reports \<open>-ENOTCONN\<close> without touching any queue.
\<close>

theorem sink_close_spec:
  assumes "kmsgq Q items depth" and "0 \<le> sink_id s" and "sink_id s < int (length (sinks b))"
    and "nmea_bridge_sink_close Q (Some s) b = (s', b')"
  shows "\<not> slot_active (sinks b' ! nat (sink_id s)) \<and>
    items (slot_msgq (sinks b' ! nat (sink_id s))) = [] \<and>
    (\<forall>j. j \<noteq> nat (sink_id s) \<longrightarrow> sinks b' ! j = sinks b ! j) \<and>
    ingest_msgq b' = ingest_msgq b \<and> bridge_stats b' = bridge_stats b \<and>
    nmea_bridge_sink_close Q s' b' = (s', b') \<and>
    nmea_bridge_sink_take Q s' False timeout b' = (Inl ENOTCONN, b')"
proof -
  have s': "s' = Some (s\<lparr>sink_id := - 1\<rparr>)"
    and b': "b' = b\<lparr>sinks := (sinks b)[nat (sink_id s) := release_slot Q (sinks b ! nat (sink_id s))]\<rparr>"
    using assms(2-4) by (auto simp: nmea_bridge_sink_close_def Let_def)
  have "nat (sink_id s) < length (sinks b)" using assms(2,3) by simp
  then show ?thesis
    by (simp add: s' b' release_slot_def kmsgq.purge_items [OF assms(1)]
        nmea_bridge_sink_close_def nmea_bridge_sink_take_def)
qed

theorem sink_close_spec_witness:
  "let b = bridge_of (traced_run small_config ref_msgq (0, []) [Open None]);
       (s', b') = nmea_bridge_sink_close ref_msgq (Some \<lparr>sink_id = 0\<rparr>) b
   in \<not> slot_active (sinks b' ! nat 0) \<and>
      nmea_bridge_sink_take ref_msgq s' False K_FOREVER b' = (Inl ENOTCONN, b')"
proof -
  let ?b = "bridge_of (traced_run small_config ref_msgq (0, []) [Open None])"
  have "(0 :: int) \<le> sink_id \<lparr>sink_id = 0\<rparr>" by simp
  moreover have "sink_id \<lparr>sink_id = 0\<rparr> < int (length (sinks ?b))" by code_simp
  ultimately show ?thesis
    using sink_close_spec [OF ref.kmsgq_axioms, of "\<lparr>sink_id = 0\<rparr>" ?b,
        OF _ _ prod.collapse [symmetric]]
    by (simp add: split_beta)
qed

end
