(* ===== verification/Led_Policy.thy ===== *)
theory Led_Policy
  imports Prelude
begin

text \<open>
  \<open>src/status_led_policy.c\<close> and \<open>src/status_led_policy.h\<close>: what colour the status LED
  shows. Times are 32-bit milliseconds that wrap around, colours are 8-bit channels.
\<close>

section \<open>Constants, colours and state\<close>

definition STATUS_LED_DISCONNECTED_RED :: u32 where
  "STATUS_LED_DISCONNECTED_RED = 16"
definition STATUS_LED_CONNECTING_PERIOD_MS :: u32 where
  "STATUS_LED_CONNECTING_PERIOD_MS = 1000"
definition STATUS_LED_CONNECTING_RED_MIN :: u32 where
  "STATUS_LED_CONNECTING_RED_MIN = 4"
definition STATUS_LED_CONNECTING_GREEN_MIN :: u32 where
  "STATUS_LED_CONNECTING_GREEN_MIN = 2"
definition STATUS_LED_CONNECTING_RED_MAX :: u32 where
  "STATUS_LED_CONNECTING_RED_MAX = 16"
definition STATUS_LED_CONNECTING_GREEN_MAX :: u32 where
  "STATUS_LED_CONNECTING_GREEN_MAX = 8"
definition STATUS_LED_CONNECTED_GREEN :: u32 where
  "STATUS_LED_CONNECTED_GREEN = 16"
definition STATUS_LED_NMEA_ACTIVITY_FLASH_MS :: u32 where
  "STATUS_LED_NMEA_ACTIVITY_FLASH_MS = 100"
definition STATUS_LED_NMEA_ACTIVITY_BLUE :: u32 where
  "STATUS_LED_NMEA_ACTIVITY_BLUE = 16"
definition STATUS_LED_NMEA_FORWARDED_WHITE :: u32 where
  "STATUS_LED_NMEA_FORWARDED_WHITE = 24"
definition STATUS_LED_NMEA_ERROR_RED :: u32 where
  "STATUS_LED_NMEA_ERROR_RED = 24"

lemmas led_constants [op_defs] =
  STATUS_LED_DISCONNECTED_RED_def STATUS_LED_CONNECTING_PERIOD_MS_def
  STATUS_LED_CONNECTING_RED_MIN_def STATUS_LED_CONNECTING_GREEN_MIN_def
  STATUS_LED_CONNECTING_RED_MAX_def STATUS_LED_CONNECTING_GREEN_MAX_def
  STATUS_LED_CONNECTED_GREEN_def STATUS_LED_NMEA_ACTIVITY_FLASH_MS_def
  STATUS_LED_NMEA_ACTIVITY_BLUE_def STATUS_LED_NMEA_FORWARDED_WHITE_def
  STATUS_LED_NMEA_ERROR_RED_def

record status_led_rgb =
  rgb_r :: u8
  rgb_g :: u8
  rgb_b :: u8

text \<open>A compound literal: each initialiser is converted to \<open>uint8_t\<close>.\<close>

definition rgb :: "u32 \<Rightarrow> u32 \<Rightarrow> u32 \<Rightarrow> status_led_rgb" where
  "rgb red green blue = \<lparr>rgb_r = ucast red, rgb_g = ucast green, rgb_b = ucast blue\<rparr>"

datatype status_led_base_state =
    STATUS_LED_BASE_DISCONNECTED
  | STATUS_LED_BASE_CONNECTING
  | STATUS_LED_BASE_CONNECTED

record status_led_policy_state =
  active_tcp_nmea_sessions :: u16
  outbound_tcp_nmea_client_connecting :: bool
  nmea_activity_flash_active :: bool
  nmea_forwarded_flash_active :: bool
  nmea_error_flash_active :: bool
  nmea_activity_flash_until_ms :: u32
  nmea_forwarded_flash_until_ms :: u32
  nmea_error_flash_until_ms :: u32

text \<open>The static object \<open>status_led_state\<close> starts zeroed.\<close>

definition zero_policy_state :: status_led_policy_state where
  "zero_policy_state =
     \<lparr>active_tcp_nmea_sessions = 0, outbound_tcp_nmea_client_connecting = False,
      nmea_activity_flash_active = False, nmea_forwarded_flash_active = False,
      nmea_error_flash_active = False, nmea_activity_flash_until_ms = 0,
      nmea_forwarded_flash_until_ms = 0, nmea_error_flash_until_ms = 0\<rparr>"

section \<open>Operations\<close>

text \<open>\<open>(int32_t)(now_ms - until_ms) < 0\<close>: the 32-bit difference read as two's complement.\<close>

definition flash_active_until :: "bool \<Rightarrow> u32 \<Rightarrow> u32 \<Rightarrow> bool" where
  "flash_active_until active now_ms until_ms \<longleftrightarrow> active \<and> sint (now_ms - until_ms) < 0"

definition status_led_policy_tcp_nmea_session_started ::
    "status_led_policy_state \<Rightarrow> status_led_policy_state" where
  "status_led_policy_tcp_nmea_session_started s =
     s\<lparr>active_tcp_nmea_sessions := active_tcp_nmea_sessions s + 1\<rparr>"

definition status_led_policy_tcp_nmea_session_ended ::
    "status_led_policy_state \<Rightarrow> status_led_policy_state" where
  "status_led_policy_tcp_nmea_session_ended s =
     (if 0 < active_tcp_nmea_sessions s
      then s\<lparr>active_tcp_nmea_sessions := active_tcp_nmea_sessions s - 1\<rparr>
      else s)"

definition status_led_policy_tcp_nmea_client_connecting ::
    "bool \<Rightarrow> status_led_policy_state \<Rightarrow> status_led_policy_state" where
  "status_led_policy_tcp_nmea_client_connecting connecting s =
     s\<lparr>outbound_tcp_nmea_client_connecting := connecting\<rparr>"

definition status_led_policy_nmea_frame_received ::
    "u32 \<Rightarrow> status_led_policy_state \<Rightarrow> status_led_policy_state" where
  "status_led_policy_nmea_frame_received now_ms s =
     s\<lparr>nmea_activity_flash_active := True,
       nmea_activity_flash_until_ms := now_ms + STATUS_LED_NMEA_ACTIVITY_FLASH_MS\<rparr>"

definition status_led_policy_nmea_frame_forwarded ::
    "u32 \<Rightarrow> status_led_policy_state \<Rightarrow> status_led_policy_state" where
  "status_led_policy_nmea_frame_forwarded now_ms s =
     s\<lparr>nmea_forwarded_flash_active := True,
       nmea_forwarded_flash_until_ms := now_ms + STATUS_LED_NMEA_ACTIVITY_FLASH_MS\<rparr>"

definition status_led_policy_nmea_send_failed ::
    "u32 \<Rightarrow> status_led_policy_state \<Rightarrow> status_led_policy_state" where
  "status_led_policy_nmea_send_failed now_ms s =
     s\<lparr>nmea_error_flash_active := True,
       nmea_error_flash_until_ms := now_ms + STATUS_LED_NMEA_ACTIVITY_FLASH_MS\<rparr>"

definition status_led_policy_base_state ::
    "status_led_policy_state \<Rightarrow> status_led_base_state" where
  "status_led_policy_base_state s =
     (if 0 < active_tcp_nmea_sessions s then STATUS_LED_BASE_CONNECTED
      else if outbound_tcp_nmea_client_connecting s then STATUS_LED_BASE_CONNECTING
      else STATUS_LED_BASE_DISCONNECTED)"

definition status_led_policy_render_disconnected :: "u32 \<Rightarrow> status_led_rgb" where
  "status_led_policy_render_disconnected elapsed_ms = rgb STATUS_LED_DISCONNECTED_RED 0 0"

text \<open>
  The channel is \<open>MIN + (uint8_t)(..)\<close>, computed in 32 bits and stored in 8: the inner
  conversion to \<open>uint8_t\<close> is kept.
\<close>

definition status_led_policy_render_connecting :: "u32 \<Rightarrow> status_led_rgb" where
  "status_led_policy_render_connecting elapsed_ms =
     (let half_period_ms = STATUS_LED_CONNECTING_PERIOD_MS div 2;
          phase_ms = elapsed_ms mod STATUS_LED_CONNECTING_PERIOD_MS;
          red_range = STATUS_LED_CONNECTING_RED_MAX - STATUS_LED_CONNECTING_RED_MIN;
          green_range = STATUS_LED_CONNECTING_GREEN_MAX - STATUS_LED_CONNECTING_GREEN_MIN;
          ramp_ms = (if half_period_ms < phase_ms
                     then STATUS_LED_CONNECTING_PERIOD_MS - phase_ms else phase_ms);
          to_u8 = (\<lambda>x :: u32. ucast (ucast x :: u8) :: u32)
      in rgb (STATUS_LED_CONNECTING_RED_MIN + to_u8 (red_range * ramp_ms div half_period_ms))
             (STATUS_LED_CONNECTING_GREEN_MIN + to_u8 (green_range * ramp_ms div half_period_ms))
             0)"

definition status_led_policy_render_base ::
    "status_led_base_state \<Rightarrow> u32 \<Rightarrow> status_led_rgb" where
  "status_led_policy_render_base state elapsed_ms =
     (if state = STATUS_LED_BASE_CONNECTED then rgb 0 STATUS_LED_CONNECTED_GREEN 0
      else if state = STATUS_LED_BASE_CONNECTING
      then status_led_policy_render_connecting elapsed_ms
      else status_led_policy_render_disconnected elapsed_ms)"

definition status_led_policy_render ::
    "status_led_policy_state \<Rightarrow> u32 \<Rightarrow> status_led_rgb" where
  "status_led_policy_render s elapsed_ms =
     (if flash_active_until (nmea_error_flash_active s) elapsed_ms (nmea_error_flash_until_ms s)
      then rgb STATUS_LED_NMEA_ERROR_RED 0 0
      else if flash_active_until (nmea_forwarded_flash_active s) elapsed_ms
                (nmea_forwarded_flash_until_ms s)
      then rgb STATUS_LED_NMEA_FORWARDED_WHITE STATUS_LED_NMEA_FORWARDED_WHITE
             STATUS_LED_NMEA_FORWARDED_WHITE
      else if flash_active_until (nmea_activity_flash_active s) elapsed_ms
                (nmea_activity_flash_until_ms s)
      then rgb 0 0 STATUS_LED_NMEA_ACTIVITY_BLUE
      else status_led_policy_render_base (status_led_policy_base_state s) elapsed_ms)"

lemmas policy_ops [op_defs] =
  status_led_policy_tcp_nmea_session_started_def status_led_policy_tcp_nmea_session_ended_def
  status_led_policy_tcp_nmea_client_connecting_def status_led_policy_nmea_frame_received_def
  status_led_policy_nmea_frame_forwarded_def status_led_policy_nmea_send_failed_def

section \<open>The order of the base states\<close>

text \<open>The enumeration order is the order of precedence: connected over connecting over disconnected.\<close>

instantiation status_led_base_state :: linorder
begin

fun base_rank :: "status_led_base_state \<Rightarrow> nat" where
  "base_rank STATUS_LED_BASE_DISCONNECTED = 0"
| "base_rank STATUS_LED_BASE_CONNECTING = 1"
| "base_rank STATUS_LED_BASE_CONNECTED = 2"

definition less_eq_status_led_base_state ::
    "status_led_base_state \<Rightarrow> status_led_base_state \<Rightarrow> bool" where
  "x \<le> y \<longleftrightarrow> base_rank x \<le> base_rank y"

definition less_status_led_base_state ::
    "status_led_base_state \<Rightarrow> status_led_base_state \<Rightarrow> bool" where
  "x < (y :: status_led_base_state) \<longleftrightarrow> base_rank x < base_rank y"

instance
proof
  fix x y :: status_led_base_state
  show "x \<le> y \<Longrightarrow> y \<le> x \<Longrightarrow> x = y"
    by (cases x; cases y) (simp_all add: less_eq_status_led_base_state_def)
qed (auto simp: less_eq_status_led_base_state_def less_status_led_base_state_def)

end

end
