(* ===== verification/Led_Policy_Facts.thy ===== *)
theory Led_Policy_Facts
  imports Led_Policy
begin

text \<open>
  The properties of the LED policy: flash windows under 32-bit time, precedence of the flashes
  and of the base states, the session count, and the shape of the connecting pulse.
\<close>

section \<open>Time comparison on 32-bit words\<close>

text \<open>
  The window of a flash armed at time \<open>t\<close>, in terms of the time since: it is open for 100 ms,
  and open again once the 32-bit difference has passed \<open>2 ^ 31\<close> (after 24.8 days).
\<close>

lemma flash_window:
  "flash_active_until True now (t + STATUS_LED_NMEA_ACTIVITY_FLASH_MS) \<longleftrightarrow>
     unat (now - t) < 100 \<or> 2147483748 \<le> unat (now - t)"
proof -
  let ?d = "now - t"
  have "now - (t + 100) = ?d - 100" by (simp add: diff_diff_eq)
  moreover have "unat (?d - 100) = (if 100 \<le> unat ?d then unat ?d - 100 else unat ?d + 4294967196)"
    by (simp add: unat_sub_if' word_le_nat_alt)
  moreover have "unat ?d < 4294967296" by (rule unat_u32_less)
  ultimately show ?thesis
    by (simp add: flash_active_until_def STATUS_LED_NMEA_ACTIVITY_FLASH_MS_def sint_negative_iff diff_diff_eq)
      arith
qed

section \<open>Events of the policy\<close>

datatype policy_event =
    Session_started
  | Session_ended
  | Client_connecting bool
  | Frame_received u32
  | Frame_forwarded u32
  | Send_failed u32

fun policy_step :: "policy_event \<Rightarrow> status_led_policy_state \<Rightarrow> status_led_policy_state" where
  "policy_step Session_started s = status_led_policy_tcp_nmea_session_started s"
| "policy_step Session_ended s = status_led_policy_tcp_nmea_session_ended s"
| "policy_step (Client_connecting on) s = status_led_policy_tcp_nmea_client_connecting on s"
| "policy_step (Frame_received t) s = status_led_policy_nmea_frame_received t s"
| "policy_step (Frame_forwarded t) s = status_led_policy_nmea_frame_forwarded t s"
| "policy_step (Send_failed t) s = status_led_policy_nmea_send_failed t s"

fun is_send_failed :: "policy_event \<Rightarrow> bool" where
  "is_send_failed (Send_failed _) = True"
| "is_send_failed _ = False"

fun is_forwarded :: "policy_event \<Rightarrow> bool" where
  "is_forwarded (Frame_forwarded _) = True"
| "is_forwarded _ = False"

text \<open>No event but a send failure arms or moves the error flash; likewise for forwarding.\<close>

lemma error_flash_frame:
  "\<not> is_send_failed e \<Longrightarrow>
     nmea_error_flash_active (policy_step e s) = nmea_error_flash_active s \<and>
     nmea_error_flash_until_ms (policy_step e s) = nmea_error_flash_until_ms s"
  by (cases e) (simp_all add: policy_ops)

lemma error_flash_frames:
  "\<forall>e \<in> set es. \<not> is_send_failed e \<Longrightarrow>
     nmea_error_flash_active (fold policy_step es s) = nmea_error_flash_active s \<and>
     nmea_error_flash_until_ms (fold policy_step es s) = nmea_error_flash_until_ms s"
  by (induction es arbitrary: s) (simp_all add: error_flash_frame)

lemma forwarded_flash_frame:
  "\<not> is_forwarded e \<Longrightarrow>
     nmea_forwarded_flash_active (policy_step e s) = nmea_forwarded_flash_active s \<and>
     nmea_forwarded_flash_until_ms (policy_step e s) = nmea_forwarded_flash_until_ms s"
  by (cases e) (simp_all add: policy_ops)

lemma forwarded_flash_frames:
  "\<forall>e \<in> set es. \<not> is_forwarded e \<Longrightarrow>
     nmea_forwarded_flash_active (fold policy_step es s) = nmea_forwarded_flash_active s \<and>
     nmea_forwarded_flash_until_ms (fold policy_step es s) = nmea_forwarded_flash_until_ms s"
  by (induction es arbitrary: s) (simp_all add: forwarded_flash_frame)

section \<open>Precedence and time\<close>

text \<open>
  C26: A send failure is visible for 100 ms whatever else happens. After a send failure at time
  \<open>t\<close>, and any further events but another failure, the LED shows the error colour at every
  instant less than 100 ms after \<open>t\<close>, across the wrap-around of the 32-bit clock.
\<close>

theorem error_flash_wins:
  assumes "\<forall>e \<in> set es. \<not> is_send_failed e" and "unat (now - t) < 100"
  shows "status_led_policy_render
           (fold policy_step es (status_led_policy_nmea_send_failed t s)) now = rgb 24 0 0"
proof -
  have "flash_active_until True now (t + STATUS_LED_NMEA_ACTIVITY_FLASH_MS)"
    using assms(2) by (simp add: flash_window)
  then show ?thesis
    using error_flash_frames [OF assms(1), of "status_led_policy_nmea_send_failed t s"]
    by (simp add: status_led_policy_render_def status_led_policy_nmea_send_failed_def
        STATUS_LED_NMEA_ERROR_RED_def)
qed

theorem error_flash_wins_witness:
  "status_led_policy_render
     (fold policy_step [Frame_forwarded 5, Session_ended, Frame_received 20]
       (status_led_policy_nmea_send_failed (- 50) zero_policy_state)) 30 = rgb 24 0 0"
  by (rule error_flash_wins) simp_all

text \<open>
  The life of a flash. In any state without an error flash, a forwarded frame at time \<open>t\<close>
  and then a received one at time \<open>u\<close> show white while the forwarding is less than 100 ms old,
  else blue while the receipt is, else the base pattern: forwarding wins over receipt, and
  both return to the base state, provided each is at most \<open>2 ^ 31\<close> ms (24.8 days) old.
\<close>

theorem flash_lifecycle:
  assumes "\<not> nmea_error_flash_active s"
    and "unat (now - t) < 2147483748" and "unat (now - u) < 2147483748"
  shows "status_led_policy_render
           (status_led_policy_nmea_frame_received u (status_led_policy_nmea_frame_forwarded t s)) now =
         (if unat (now - t) < 100 then rgb 24 24 24
          else if unat (now - u) < 100 then rgb 0 0 16
          else status_led_policy_render_base (status_led_policy_base_state s) now)"
proof -
  have "flash_active_until True now (t + STATUS_LED_NMEA_ACTIVITY_FLASH_MS) \<longleftrightarrow> unat (now - t) < 100"
    and "flash_active_until True now (u + STATUS_LED_NMEA_ACTIVITY_FLASH_MS) \<longleftrightarrow> unat (now - u) < 100"
    using assms(2,3) by (simp_all add: flash_window)
  moreover have "\<not> flash_active_until False now x" for x
    by (simp add: flash_active_until_def)
  ultimately show ?thesis
    using assms(1)
    by (simp add: status_led_policy_render_def policy_ops status_led_policy_base_state_def
        STATUS_LED_NMEA_FORWARDED_WHITE_def STATUS_LED_NMEA_ACTIVITY_BLUE_def)
qed

theorem flash_lifecycle_witness:
  "status_led_policy_render
     (status_led_policy_nmea_frame_received 60
       (status_led_policy_nmea_frame_forwarded 0 zero_policy_state)) 130 = rgb 0 0 16"
  using flash_lifecycle [of zero_policy_state 130 0 60] by (simp add: zero_policy_state_def)

text \<open>
  C38: A stale flash comes back. No event ever clears a flash flag, and the 32-bit comparison
  turns negative again half a wrap later: after one send failure and no other, the LED shows
  the error colour again from \<open>2 ^ 31 + 100\<close> ms (24.8 days) after it until the clock has wrapped.
\<close>

theorem stale_error_flash_returns:
  assumes "\<forall>e \<in> set es. \<not> is_send_failed e" and "2147483748 \<le> unat (now - t)"
  shows "status_led_policy_render
           (fold policy_step es (status_led_policy_nmea_send_failed t s)) now = rgb 24 0 0"
proof -
  have "flash_active_until True now (t + STATUS_LED_NMEA_ACTIVITY_FLASH_MS)"
    using assms(2) by (simp add: flash_window)
  then show ?thesis
    using error_flash_frames [OF assms(1), of "status_led_policy_nmea_send_failed t s"]
    by (simp add: status_led_policy_render_def status_led_policy_nmea_send_failed_def
        STATUS_LED_NMEA_ERROR_RED_def)
qed

theorem stale_error_flash_returns_witness:
  "status_led_policy_render
     (fold policy_step [Session_ended, Client_connecting True]
       (status_led_policy_nmea_send_failed 1000 zero_policy_state)) 3000000000 = rgb 24 0 0"
  by (rule stale_error_flash_returns) simp_all

section \<open>Sessions and the base state\<close>

text \<open>The number of open sessions as a natural number that never goes below zero.\<close>

fun session_level :: "policy_event list \<Rightarrow> nat \<Rightarrow> nat" where
  "session_level [] n = n"
| "session_level (e # es) n =
     session_level es (case e of Session_started \<Rightarrow> Suc n | Session_ended \<Rightarrow> n - 1 | _ \<Rightarrow> n)"

fun last_connecting :: "policy_event list \<Rightarrow> bool \<Rightarrow> bool" where
  "last_connecting [] on = on"
| "last_connecting (e # es) on =
     last_connecting es (case e of Client_connecting on' \<Rightarrow> on' | _ \<Rightarrow> on)"

lemma session_level_bound: "session_level es n \<le> n + length (filter ((=) Session_started) es)"
proof (induction es arbitrary: n)
  case Nil
  then show ?case by simp
next
  case (Cons e es)
  show ?case
    using Cons.IH [of "Suc n"] Cons.IH [of "n - 1"] Cons.IH [of n]
    by (cases e) auto
qed

lemma policy_sessions:
  assumes "unat (active_tcp_nmea_sessions s) + length (filter ((=) Session_started) es) < 65536"
  shows "unat (active_tcp_nmea_sessions (fold policy_step es s)) =
           session_level es (unat (active_tcp_nmea_sessions s)) \<and>
         outbound_tcp_nmea_client_connecting (fold policy_step es s) =
           last_connecting es (outbound_tcp_nmea_client_connecting s)"
  using assms
proof (induction es arbitrary: s)
  case Nil
  then show ?case by simp
next
  case (Cons e es)
  let ?n = "unat (active_tcp_nmea_sessions s)"
  have "unat (active_tcp_nmea_sessions (policy_step e s)) =
      (case e of Session_started \<Rightarrow> Suc ?n | Session_ended \<Rightarrow> ?n - 1 | _ \<Rightarrow> ?n) \<and>
      outbound_tcp_nmea_client_connecting (policy_step e s) =
      (case e of Client_connecting on \<Rightarrow> on | _ \<Rightarrow> outbound_tcp_nmea_client_connecting s)"
    using Cons.prems
    by (cases e) (auto simp: policy_ops unat_Suc_no_wrap unat_pred word_gt_0_unat)
  moreover have "unat (active_tcp_nmea_sessions (policy_step e s)) +
      length (filter ((=) Session_started) es) < 65536"
    using Cons.prems calculation by (cases e) auto
  ultimately show ?case using Cons.IH [of "policy_step e s"] by (cases e) auto
qed

text \<open>
  C24: The base state tells whether sessions are open. Over any events with fewer than 65536
  session starts, the base state is the greater, in the order disconnected, connecting,
  connected, of what the open sessions say (starts less ends, a surplus end being ignored)
  and what the outbound client last reported: connected wins over connecting.
\<close>

theorem base_state_counts_sessions:
  assumes "length (filter ((=) Session_started) es) < 65536"
  shows "status_led_policy_base_state (fold policy_step es zero_policy_state) =
           max (if 0 < session_level es 0
                then STATUS_LED_BASE_CONNECTED else STATUS_LED_BASE_DISCONNECTED)
               (if last_connecting es False
                then STATUS_LED_BASE_CONNECTING else STATUS_LED_BASE_DISCONNECTED)"
  using policy_sessions [of zero_policy_state es] assms
  by (simp add: status_led_policy_base_state_def zero_policy_state_def word_gt_0_unat max_def
      less_eq_status_led_base_state_def)

theorem base_state_counts_sessions_witness:
  "status_led_policy_base_state (fold policy_step
     [Session_ended, Client_connecting True, Session_started, Session_started, Session_ended]
     zero_policy_state) = max STATUS_LED_BASE_CONNECTED STATUS_LED_BASE_CONNECTING"
  using base_state_counts_sessions [of
    "[Session_ended, Client_connecting True, Session_started, Session_started, Session_ended]"]
  by simp

section \<open>The connecting pulse\<close>

text \<open>The distance of a time from the nearest start of a period, in ms: 0 to 500 and back.\<close>

definition triangle :: "nat \<Rightarrow> nat" where
  "triangle t = min (t mod 1000) (1000 - t mod 1000)"

lemma triangle_le: "triangle t \<le> 500"
  by (auto simp: triangle_def min_def)

lemma channel_value:
  assumes "k \<le> 12" and "n \<le> 500" and "m \<le> 4"
  shows "unat (ucast (word_of_nat m + ucast (ucast (word_of_nat k * word_of_nat n div 500 :: u32) :: u8)
      :: u32) :: u8) = m + k * n div 500"
proof -
  have kn: "k * n \<le> 6000" using mult_le_mono [OF assms(1,2)] by simp
  then have q: "k * n div 500 \<le> 12" by simp
  have "(word_of_nat k * word_of_nat n :: u32) = word_of_nat (k * n)" by simp
  moreover have "unat (word_of_nat (k * n) :: u32) = k * n"
    by (subst unat_of_nat) (use kn in simp)
  ultimately have "unat (word_of_nat k * word_of_nat n div 500 :: u32) = k * n div 500"
    by (simp add: unat_div)
  then have "(word_of_nat k * word_of_nat n div 500 :: u32) = word_of_nat (k * n div 500)"
    by (simp add: word_of_unat)
  moreover have "unat (word_of_nat (k * n div 500) :: u32) = k * n div 500"
    by (subst unat_of_nat) (use q in simp)
  ultimately have "unat (ucast (ucast (word_of_nat k * word_of_nat n div 500 :: u32) :: u8) :: u32) =
      k * n div 500"
    using q by (simp add: unat_ucast_u8 unat_ucast_u32)
  moreover have "unat (word_of_nat m :: u32) = m"
    by (subst unat_of_nat) (use assms(3) in simp)
  ultimately show ?thesis
    using q assms(3) by (simp add: unat_ucast_u8 unat_word_ariths)
qed

lemma pulse_value:
  "status_led_policy_render_connecting e =
     \<lparr>rgb_r = word_of_nat (4 + 12 * triangle (unat e) div 500),
      rgb_g = word_of_nat (2 + 6 * triangle (unat e) div 500), rgb_b = 0\<rparr>"
proof -
  let ?p = "e mod 1000"
  have p: "unat ?p = unat e mod 1000" by (simp add: unat_mod)
  have ramp: "(if 500 < ?p then 1000 - ?p else ?p) = (word_of_nat (triangle (unat e)) :: u32)"
  proof (cases "500 < ?p")
    case True
    then have "unat (1000 - ?p) = triangle (unat e)"
      using p by (simp add: unat_sub_if' word_less_nat_alt word_le_nat_alt triangle_def)
    with True show ?thesis by (simp add: word_of_unat)
  next
    case False
    then have "unat ?p = triangle (unat e)"
      using p by (simp add: word_less_nat_alt triangle_def)
    with False show ?thesis by (simp add: word_of_unat)
  qed
  have nums: "(1000 div 2 :: u32) = 500" "(16 - 4 :: u32) = word_of_nat 12"
      "(8 - 2 :: u32) = word_of_nat 6" "(4 :: u32) = word_of_nat 4" "(2 :: u32) = word_of_nat 2"
    by simp_all
  show ?thesis
    unfolding status_led_policy_render_connecting_def Let_def led_constants rgb_def nums(1-3) ramp
    unfolding nums(4,5)
    using channel_value [of 12 "triangle (unat e)" 4, THEN word_of_unat]
      channel_value [of 6 "triangle (unat e)" 2, THEN word_of_unat] triangle_le [of "unat e"]
    by (simp only: status_led_rgb.simps) simp
qed

text \<open>
  The connecting pulse. At every instant red is between 4 and 16 and green between 2 and 8,
  each the linear image of a triangle wave of period 1000 ms with its peak at 500 ms; blue is
  off. No 8-bit or 32-bit step of the computation wraps.
\<close>

theorem connecting_pulse_shape:
  "let c = status_led_policy_render_connecting e;
       tri = min (unat e mod 1000) (1000 - unat e mod 1000)
   in unat (rgb_r c) = 4 + 12 * tri div 500 \<and> unat (rgb_g c) = 2 + 6 * tri div 500 \<and>
      unat (rgb_b c) = 0 \<and> unat (rgb_r c) \<le> 16 \<and> unat (rgb_g c) \<le> 8"
proof -
  let ?t = "triangle (unat e)"
  have "12 * ?t div 500 \<le> 12" "6 * ?t div 500 \<le> 6" using triangle_le [of "unat e"] by simp_all
  moreover from this have "unat (word_of_nat (4 + 12 * ?t div 500) :: u8) = 4 + 12 * ?t div 500"
      "unat (word_of_nat (2 + 6 * ?t div 500) :: u8) = 2 + 6 * ?t div 500"
    by (subst unat_of_nat, simp)+
  ultimately show ?thesis
    by (simp add: pulse_value Let_def flip: triangle_def)
qed

end
