(* ===== verification/Status_Led.thy ===== *)
theory Status_Led
  imports Led_Policy Config
begin

text \<open>
  \<open>src/status_led.c\<close> and \<open>src/status_led.h\<close>: the LED observer. Other components report
  events to it; its thread renders the policy state and writes the LED strip, retrying with a
  growing delay when the hardware fails. Times of \<open>k_uptime_get\<close> are 64-bit milliseconds,
  modelled as integers since they cannot overflow in practice; they are arguments. The strip
  driver's answer is an argument too, and the calls into drivers and \<open>k_sem_give\<close> are outputs.
\<close>

section \<open>State\<close>

definition STATUS_LED_RETRY_INITIAL_MS :: u32 where
  "STATUS_LED_RETRY_INITIAL_MS = 1000"
definition STATUS_LED_RETRY_MAX_MS :: u32 where
  "STATUS_LED_RETRY_MAX_MS = 5000"

text \<open>\<open>status_led_wake\<close> counts the calls of \<open>k_sem_give(&status_led_wake)\<close>.\<close>

record status_led =
  status_led_running :: bool
  status_led_started_ms :: int
  status_led_state :: status_led_policy_state
  status_led_wake :: nat

definition status_led_storage :: status_led where
  "status_led_storage =
     \<lparr>status_led_running = False, status_led_started_ms = 0,
      status_led_state = zero_policy_state, status_led_wake = 0\<rparr>"

text \<open>The local variables of \<open>status_led_thread\<close>.\<close>

record led_thread =
  next_retry_ms :: int
  failed_attempts :: u8
  has_applied_rgb :: bool
  applied_rgb :: status_led_rgb

definition led_thread_start :: led_thread where
  "led_thread_start =
     \<lparr>next_retry_ms = 0, failed_attempts = 0, has_applied_rgb = False,
      applied_rgb = \<lparr>rgb_r = 0, rgb_g = 0, rgb_b = 0\<rparr>\<rparr>"

text \<open>Calls into the drivers.\<close>

datatype led_call =
    Led_strip_update_rgb status_led_rgb
  | I2s_trigger_drop

section \<open>The thread\<close>

text \<open>\<open>(uint32_t)(now - status_led_started_ms)\<close>.\<close>

definition elapsed :: "int \<Rightarrow> status_led \<Rightarrow> u32" where
  "elapsed now l = word_of_int (now - status_led_started_ms l)"

definition status_led_render :: "u32 \<Rightarrow> status_led \<Rightarrow> status_led_rgb" where
  "status_led_render elapsed_ms l = status_led_policy_render (status_led_state l) elapsed_ms"

definition status_led_rgb_equal :: "status_led_rgb \<Rightarrow> status_led_rgb \<Rightarrow> bool" where
  "status_led_rgb_equal a b \<longleftrightarrow> rgb_r a = rgb_r b \<and> rgb_g a = rgb_g b \<and> rgb_b a = rgb_b b"

text \<open>\<open>has_i2s\<close> is \<open>STATUS_LED_HAS_I2S_RECOVERY\<close>; the result of the trigger is only logged.\<close>

definition status_led_recover_bus :: "bool \<Rightarrow> led_call list" where
  "status_led_recover_bus has_i2s = (if has_i2s then [I2s_trigger_drop] else [])"

function retry_delay_loop :: "u8 \<Rightarrow> u32 \<Rightarrow> u32" where
  "retry_delay_loop failed delay_ms =
     (if 1 < failed \<and> delay_ms < STATUS_LED_RETRY_MAX_MS
      then retry_delay_loop (failed - 1) (delay_ms * 2)
      else delay_ms)"
  by pat_completeness auto
termination
  by (relation "measure (\<lambda>(failed, _). unat failed)")
    (auto simp: word_less_nat_alt unat_pred)

declare retry_delay_loop.simps [simp del]

definition status_led_retry_delay_ms :: "u8 \<Rightarrow> u32" where
  "status_led_retry_delay_ms failed =
     (let delay_ms = retry_delay_loop failed STATUS_LED_RETRY_INITIAL_MS
      in if STATUS_LED_RETRY_MAX_MS < delay_ms then STATUS_LED_RETRY_MAX_MS else delay_ms)"

text \<open>\<open>if (failed_attempts < UINT8_MAX) failed_attempts++\<close>.\<close>

definition bump_attempts :: "u8 \<Rightarrow> u8" where
  "bump_attempts n = (if n < 255 then n + 1 else n)"

text \<open>
  One turn of the thread's endless loop, up to its wait for the semaphore. \<open>update\<close> is the
  strip driver's answer to \<open>led_strip_update_rgb\<close> in this turn.
\<close>

definition status_led_iteration ::
    "bool \<Rightarrow> (status_led_rgb \<Rightarrow> status) \<Rightarrow> int \<Rightarrow> status_led \<Rightarrow> led_thread
       \<Rightarrow> led_thread \<times> led_call list" where
  "status_led_iteration has_i2s update now_ms l th =
     (let rendered = status_led_render (elapsed now_ms l) l
      in if (\<not> has_applied_rgb th \<or> \<not> status_led_rgb_equal rendered (applied_rgb th)) \<and>
            next_retry_ms th \<le> now_ms
         then (case update rendered of
                 Inr _ \<Rightarrow>
                   (th\<lparr>applied_rgb := rendered, has_applied_rgb := True,
                       failed_attempts := 0, next_retry_ms := 0\<rparr>,
                    [Led_strip_update_rgb rendered])
               | Inl _ \<Rightarrow>
                   (let failed = bump_attempts (failed_attempts th);
                        retry_delay_ms = status_led_retry_delay_ms failed
                    in (th\<lparr>failed_attempts := failed,
                           next_retry_ms := now_ms + int (unat retry_delay_ms)\<rparr>,
                        Led_strip_update_rgb rendered # status_led_recover_bus has_i2s)))
         else (th, []))"

section \<open>Reports from the other components\<close>

text \<open>
  With \<open>CONFIG_ESP_NMEA_BRIDGE_STATUS_LED_ENABLE\<close> off, \<open>status_led.h\<close> replaces every function
  by an empty one: \<open>led_call_if\<close> chooses.
\<close>

definition led_call_if :: "app_config \<Rightarrow> (status_led \<Rightarrow> status_led) \<Rightarrow> status_led \<Rightarrow> status_led" where
  "led_call_if c f l = (if status_led_enable c then f l else l)"

definition status_led_tcp_nmea_session_started :: "app_config \<Rightarrow> status_led \<Rightarrow> status_led" where
  "status_led_tcp_nmea_session_started c = led_call_if c (\<lambda>l.
     l\<lparr>status_led_state := status_led_policy_tcp_nmea_session_started (status_led_state l)\<rparr>)"

definition status_led_tcp_nmea_session_ended :: "app_config \<Rightarrow> status_led \<Rightarrow> status_led" where
  "status_led_tcp_nmea_session_ended c = led_call_if c (\<lambda>l.
     l\<lparr>status_led_state := status_led_policy_tcp_nmea_session_ended (status_led_state l)\<rparr>)"

definition status_led_tcp_nmea_client_connecting ::
    "app_config \<Rightarrow> bool \<Rightarrow> status_led \<Rightarrow> status_led" where
  "status_led_tcp_nmea_client_connecting c connecting = led_call_if c (\<lambda>l.
     l\<lparr>status_led_state :=
         status_led_policy_tcp_nmea_client_connecting connecting (status_led_state l)\<rparr>)"

definition status_led_nmea_frame_received :: "app_config \<Rightarrow> int \<Rightarrow> status_led \<Rightarrow> status_led" where
  "status_led_nmea_frame_received c now = led_call_if c (\<lambda>l.
     l\<lparr>status_led_state := status_led_policy_nmea_frame_received (elapsed now l) (status_led_state l),
       status_led_wake := Suc (status_led_wake l)\<rparr>)"

definition status_led_nmea_frame_forwarded :: "app_config \<Rightarrow> int \<Rightarrow> status_led \<Rightarrow> status_led" where
  "status_led_nmea_frame_forwarded c now = led_call_if c (\<lambda>l.
     l\<lparr>status_led_state := status_led_policy_nmea_frame_forwarded (elapsed now l) (status_led_state l),
       status_led_wake := Suc (status_led_wake l)\<rparr>)"

definition status_led_nmea_send_failed :: "app_config \<Rightarrow> int \<Rightarrow> status_led \<Rightarrow> status_led" where
  "status_led_nmea_send_failed c now = led_call_if c (\<lambda>l.
     l\<lparr>status_led_state := status_led_policy_nmea_send_failed (elapsed now l) (status_led_state l),
       status_led_wake := Suc (status_led_wake l)\<rparr>)"

text \<open>
  \<open>status_led_start\<close>: \<open>has_strip\<close> is \<open>STATUS_LED_HAS_STRIP\<close>, \<open>ready\<close> the answer of
  \<open>device_is_ready\<close>. The second component says whether the thread was created.
\<close>

definition status_led_start ::
    "app_config \<Rightarrow> bool \<Rightarrow> bool \<Rightarrow> int \<Rightarrow> status_led \<Rightarrow> status \<times> bool \<times> status_led" where
  "status_led_start c has_strip ready now l =
     (if \<not> status_led_enable c then (success, False, l)
      else if status_led_running l then (success, False, l)
      else if \<not> has_strip then (success, False, l)
      else if \<not> ready then (success, False, l)
      else (success, True, l\<lparr>status_led_started_ms := now, status_led_running := True\<rparr>))"

lemma led_start_state [simp]:
  "status_led_state (snd (snd (status_led_start c has_strip ready now l))) = status_led_state l"
  by (simp add: status_led_start_def)

lemmas led_reports [op_defs] =
  status_led_tcp_nmea_session_started_def status_led_tcp_nmea_session_ended_def
  status_led_tcp_nmea_client_connecting_def status_led_nmea_frame_received_def
  status_led_nmea_frame_forwarded_def status_led_nmea_send_failed_def led_call_if_def

end
