(* ===== verification/Status_Led_Facts.thy ===== *)
theory Status_Led_Facts
  imports Status_Led
begin

text \<open>
  The properties of the LED observer: the retry delays as a doubling back-off, when the thread
  writes the strip, and what the strip shows.
\<close>

section \<open>Retry delays\<close>

lemma retry_delay_loop_val:
  "unat d < 10000 \<Longrightarrow>
     min (unat (retry_delay_loop n d)) 5000 = min (2 ^ (unat n - 1) * unat d) 5000 \<and>
     unat (retry_delay_loop n d) < 10000"
proof (induction n d rule: retry_delay_loop.induct)
  case (1 n d)
  show ?case
  proof (cases "1 < n \<and> d < STATUS_LED_RETRY_MAX_MS")
    case True
    then have n: "1 < unat n" and d: "unat d < 5000"
      by (simp_all add: word_less_nat_alt STATUS_LED_RETRY_MAX_MS_def)
    have dd: "unat (d * 2) = 2 * unat d" using d by (simp add: unat_word_ariths)
    have "unat (n - 1) = unat n - 1" using n by (intro unat_pred) (simp add: word_less_nat_alt)
    moreover have "2 ^ (unat n - 1) = 2 * (2 :: nat) ^ (unat n - 1 - 1)"
      using n by (metis Suc_diff_1 power_Suc zero_less_diff)
    ultimately show ?thesis
      using 1 True d by (simp add: retry_delay_loop.simps [of n d] dd mult.assoc mult.left_commute)
  next
    case False
    then have "unat n \<le> 1 \<or> 5000 \<le> unat d"
      by (auto simp: word_less_nat_alt STATUS_LED_RETRY_MAX_MS_def)
    then have "min (2 ^ (unat n - 1) * unat d) 5000 = min (unat d) 5000"
    proof
      assume "5000 \<le> unat d"
      moreover have "unat d \<le> 2 ^ (unat n - 1) * unat d" by simp
      ultimately have "5000 \<le> 2 ^ (unat n - 1) * unat d" by (rule order_trans)
      then show ?thesis using \<open>5000 \<le> unat d\<close> by (simp only: min.absorb2)
    qed (simp add: le_Suc_eq)
    moreover have "retry_delay_loop n d = d"
      by (subst retry_delay_loop.simps) (simp only: False if_False)
    ultimately show ?thesis using 1(2) by simp
  qed
qed

lemma retry_delay_val: "unat (status_led_retry_delay_ms n) = min (2 ^ (unat n - 1) * 1000) 5000"
proof -
  have "min (unat (retry_delay_loop n 1000)) 5000 = min (2 ^ (unat n - 1) * 1000) 5000"
    using retry_delay_loop_val [of 1000 n] by simp
  then show ?thesis
    by (simp add: status_led_retry_delay_ms_def Let_def STATUS_LED_RETRY_INITIAL_MS_def
        STATUS_LED_RETRY_MAX_MS_def word_less_nat_alt min_def split: if_splits)
qed

lemma bump_val: "unat (bump_attempts w) = min (Suc (unat w)) 255"
proof (cases "unat w < 255")
  case True
  then have "unat (w + 1) = Suc (unat w)" by (intro unat_Suc_no_wrap) simp
  then show ?thesis using True by (simp add: bump_attempts_def word_less_nat_alt)
next
  case False
  then show ?thesis using unat_u8_less [of w] by (simp add: bump_attempts_def word_less_nat_alt)
qed

lemma bump_iterate: "unat ((bump_attempts ^^ n) 0) = min n 255"
  by (induction n) (auto simp: bump_val)

text \<open>The delay, in ms, chosen after the \<open>n + 1\<close>-st failure in a row.\<close>

definition led_delay :: "nat \<Rightarrow> nat" where
  "led_delay n = unat (status_led_retry_delay_ms ((bump_attempts ^^ Suc n) 0))"

lemma led_delay_closed: "led_delay n = min (2 ^ n * 1000) 5000"
proof (cases "n < 255")
  case True
  then show ?thesis by (simp add: led_delay_def retry_delay_val bump_iterate del: funpow.simps)
next
  case False
  have "(2 :: nat) ^ 254 * 1000 \<ge> 5000" by simp
  moreover have "(2 :: nat) ^ n \<ge> 2 ^ 254" using False by (intro power_increasing) simp_all
  ultimately have "5000 \<le> 2 ^ n * (1000 :: nat)" by linarith
  then show ?thesis
    using False by (simp add: led_delay_def retry_delay_val bump_iterate del: funpow.simps)
qed

interpretation led_backoff: doubling_backoff Suc led_delay 0 5000
  by unfold_locales (auto simp: led_delay_closed min_def)

section \<open>Runs of the thread\<close>

text \<open>
  One turn as an event: the time, the driver's answers, and the observer state the turn finds
  (the other threads change it between turns). \<open>strip\<close> is what the hardware shows: the last
  colour whose update succeeded.
\<close>

record led_run =
  run_thread :: led_thread
  run_strip :: "status_led_rgb option"
  run_last_turn :: int

fun led_turn ::
    "bool \<Rightarrow> int \<times> (status_led_rgb \<Rightarrow> status) \<times> status_led \<Rightarrow> led_run \<Rightarrow> led_run" where
  "led_turn has_i2s (now, update, l) r =
     (let (th, calls) = status_led_iteration has_i2s update now l (run_thread r);
          shown = (case calls of
                     Led_strip_update_rgb c # _ \<Rightarrow> if isl (update c) then run_strip r else Some c
                   | _ \<Rightarrow> run_strip r)
      in \<lparr>run_thread = th, run_strip = shown, run_last_turn = now\<rparr>)"

definition led_run_start :: led_run where
  "led_run_start = \<lparr>run_thread = led_thread_start, run_strip = None, run_last_turn = 0\<rparr>"

text \<open>The thread's copy of the shown colour is exact, and a retry is never more than 5 s away.\<close>

definition led_run_inv :: "led_run \<Rightarrow> bool" where
  "led_run_inv r \<longleftrightarrow>
     run_strip r =
       (if has_applied_rgb (run_thread r) then Some (applied_rgb (run_thread r)) else None) \<and>
     next_retry_ms (run_thread r) \<le> max 0 (run_last_turn r + 5000)"

lemma delay_le: "int (unat (status_led_retry_delay_ms n)) \<le> 5000"
  by (simp add: retry_delay_val)

lemma rgb_equal_iff [simp]: "status_led_rgb_equal x y \<longleftrightarrow> x = y"
  by (cases x; cases y) (simp add: status_led_rgb_equal_def)

text \<open>The three outcomes of a turn.\<close>

lemma iteration_cases:
  obtains (skip) "status_led_iteration has_i2s update now l th = (th, [])"
      "has_applied_rgb th \<and> applied_rgb th = status_led_render (elapsed now l) l \<or>
       now < next_retry_ms th"
  | (shown) "status_led_iteration has_i2s update now l th =
        (th\<lparr>applied_rgb := status_led_render (elapsed now l) l, has_applied_rgb := True,
            failed_attempts := 0, next_retry_ms := 0\<rparr>,
         [Led_strip_update_rgb (status_led_render (elapsed now l) l)])"
      "\<not> isl (update (status_led_render (elapsed now l) l))" "next_retry_ms th \<le> now"
  | (failed) "status_led_iteration has_i2s update now l th =
        (th\<lparr>failed_attempts := bump_attempts (failed_attempts th),
            next_retry_ms := now + int (unat
              (status_led_retry_delay_ms (bump_attempts (failed_attempts th))))\<rparr>,
         Led_strip_update_rgb (status_led_render (elapsed now l) l) # status_led_recover_bus has_i2s)"
      "isl (update (status_led_render (elapsed now l) l))" "next_retry_ms th \<le> now"
proof -
  let ?c = "status_led_render (elapsed now l) l"
  let ?go = "(\<not> has_applied_rgb th \<or> ?c \<noteq> applied_rgb th) \<and> next_retry_ms th \<le> now"
  show ?thesis
  proof (cases ?go)
    case False
    then have "status_led_iteration has_i2s update now l th = (th, [])"
      by (auto simp: status_led_iteration_def Let_def)
    then show ?thesis by (rule skip) (use False in auto)
  next
    case True
    show ?thesis
    proof (cases "update ?c")
      case (Inl e)
      have "status_led_iteration has_i2s update now l th =
        (th\<lparr>failed_attempts := bump_attempts (failed_attempts th),
            next_retry_ms := now + int (unat
              (status_led_retry_delay_ms (bump_attempts (failed_attempts th))))\<rparr>,
         Led_strip_update_rgb ?c # status_led_recover_bus has_i2s)"
        using True Inl by (simp add: status_led_iteration_def Let_def)
      then show ?thesis by (rule failed) (use True Inl in auto)
    next
      case (Inr u)
      have "status_led_iteration has_i2s update now l th =
        (th\<lparr>applied_rgb := ?c, has_applied_rgb := True,
            failed_attempts := 0, next_retry_ms := 0\<rparr>, [Led_strip_update_rgb ?c])"
        using True Inr by (simp add: status_led_iteration_def Let_def)
      then show ?thesis by (rule shown) (use True Inr in auto)
    qed
  qed
qed

text \<open>Turns whose times do not go backwards.\<close>

fun turns_from :: "int \<Rightarrow> (int \<times> (status_led_rgb \<Rightarrow> status) \<times> status_led) list \<Rightarrow> bool" where
  "turns_from t0 [] = True"
| "turns_from t0 (e # es) = (t0 \<le> fst e \<and> turns_from (fst e) es)"

lemma turns_nonneg: "turns_from t (xs @ [e]) \<Longrightarrow> t \<le> fst e"
  by (induction xs arbitrary: t) force+

lemma turns_prefix: "turns_from t (xs @ ys) \<Longrightarrow> turns_from t xs"
  by (induction xs arbitrary: t) auto

lemma led_turn_time: "run_last_turn (led_turn has_i2s e r) = fst e"
  by (cases e) (simp add: split_beta Let_def)

lemma led_turn_inv:
  assumes "led_run_inv r" and "run_last_turn r \<le> fst e"
  shows "led_run_inv (led_turn has_i2s e r)"
proof -
  obtain now update l where e: "e = (now, update, l)" by (cases e)
  show ?thesis
  proof (cases rule: iteration_cases [of has_i2s update now l "run_thread r"])
    case skip
    then show ?thesis using assms e by (auto simp: led_run_inv_def)
  next
    case shown
    then show ?thesis using assms e by (auto simp: led_run_inv_def)
  next
    case failed
    then show ?thesis using assms e delay_le [of "bump_attempts (failed_attempts (run_thread r))"]
      by (auto simp: led_run_inv_def)
  qed
qed

lemma led_run_inv_fold:
  "led_run_inv r \<Longrightarrow> turns_from (run_last_turn r) es \<Longrightarrow>
     led_run_inv (fold (led_turn has_i2s) es r)"
  by (induction es arbitrary: r) (auto simp: led_turn_inv led_turn_time simp del: led_turn.simps)

lemma led_start_inv: "led_run_inv led_run_start"
  by (simp add: led_run_inv_def led_run_start_def led_thread_start_def)

text \<open>
  C25: The strip follows the policy. In every run of the thread whose turns do not go back in
  time, whatever the driver answers: a turn at time \<open>now\<close> that finds no retry pending, or comes
  5 s or more after the previous one, and whose update would succeed, leaves the strip showing
  exactly the colour the policy renders at \<open>now\<close>.
\<close>

theorem strip_follows_policy:
  assumes "turns_from 0 (es @ [(now, update, l)])"
    and "r = fold (led_turn has_i2s) es led_run_start"
    and "next_retry_ms (run_thread r) \<le> now \<or> run_last_turn r + 5000 \<le> now"
    and "\<not> isl (update (status_led_render (elapsed now l) l))"
  shows "run_strip (led_turn has_i2s (now, update, l) r) =
           Some (status_led_policy_render (status_led_state l)
             (word_of_int (now - status_led_started_ms l)))"
proof -
  have "0 \<le> now" using turns_nonneg [OF assms(1)] by simp
  have inv: "led_run_inv r"
    using led_run_inv_fold [OF led_start_inv, of es] turns_prefix [OF assms(1)] assms(2)
    by (simp add: led_run_start_def)
  then have due: "next_retry_ms (run_thread r) \<le> now"
    using assms(3) \<open>0 \<le> now\<close> by (auto simp: led_run_inv_def)
  show ?thesis
  proof (cases rule: iteration_cases [of has_i2s update now l "run_thread r"])
    case skip
    then show ?thesis using inv due by (auto simp: led_run_inv_def status_led_render_def elapsed_def)
  next
    case shown
    then show ?thesis by (simp add: status_led_render_def elapsed_def)
  next
    case failed
    then show ?thesis using assms(4) by simp
  qed
qed

theorem strip_follows_policy_witness:
  "run_strip (led_turn True (5000, (\<lambda>_. success), status_led_storage)
     (fold (led_turn True) [(0, (\<lambda>_. failure EIO), status_led_storage)] led_run_start)) =
   Some (status_led_policy_render (status_led_state status_led_storage)
     (word_of_int (5000 - status_led_started_ms status_led_storage)))"
  by (rule strip_follows_policy [where es = "[(0, (\<lambda>_. failure EIO), status_led_storage)]"
        and update = "\<lambda>_. success", OF _ refl])
    (simp_all add: split_beta Let_def led_run_start_def)

section \<open>When the thread tries again\<close>

text \<open>
  The attempts to update the strip in a run of the thread, as the driver sees them: when each was
  made, and whether it succeeded.
\<close>

fun led_attempts ::
    "bool \<Rightarrow> (int \<times> (status_led_rgb \<Rightarrow> status) \<times> status_led) list \<Rightarrow> led_thread \<Rightarrow> (int \<times> bool) list" where
  "led_attempts has_i2s [] th = []"
| "led_attempts has_i2s ((now, update, l) # es) th =
     (case status_led_iteration has_i2s update now l th of
        (th', calls) \<Rightarrow>
          concat (map (\<lambda>call. case call of
              Led_strip_update_rgb c \<Rightarrow> [(now, \<not> isl (update c))] | I2s_trigger_drop \<Rightarrow> []) calls) @
          led_attempts has_i2s es th')"

definition failures_in_row :: "(int \<times> bool) list \<Rightarrow> nat" where
  "failures_in_row attempts = length (takeWhile (\<lambda>a. \<not> snd a) (rev attempts))"

lemma failures_in_row_snoc [simp]:
  "failures_in_row [] = 0"
  "failures_in_row (attempts @ [(t, ok)]) = (if ok then 0 else Suc (failures_in_row attempts))"
  by (simp_all add: failures_in_row_def)

definition schedule_ok :: "led_thread \<Rightarrow> (int \<times> bool) list \<Rightarrow> bool" where
  "schedule_ok th attempts \<longleftrightarrow>
     failed_attempts th = (bump_attempts ^^ failures_in_row attempts) 0 \<and>
     next_retry_ms th =
       (if failures_in_row attempts = 0 then 0
        else fst (last attempts) + int (led_delay (failures_in_row attempts - 1)))"

lemma attempts_schedule:
  "schedule_ok (run_thread r) attempts \<Longrightarrow>
     schedule_ok (run_thread (fold (led_turn has_i2s) es r))
       (attempts @ led_attempts has_i2s es (run_thread r))"
proof (induction es arbitrary: r attempts)
  case Nil
  then show ?case by simp
next
  case (Cons e es)
  obtain now update l where e: "e = (now, update, l)" by (cases e)
  let ?r = "led_turn has_i2s e r" and ?c = "status_led_render (elapsed now l) l"
  show ?case
  proof (cases rule: iteration_cases [of has_i2s update now l "run_thread r"])
    case skip
    then show ?thesis using Cons.IH [of ?r attempts] Cons.prems e by simp
  next
    case shown
    then have "schedule_ok (run_thread ?r) (attempts @ [(now, True)])"
      using e by (simp add: schedule_ok_def)
    from Cons.IH [OF this] show ?thesis using shown e by simp
  next
    case failed
    then have "schedule_ok (run_thread ?r) (attempts @ [(now, False)])"
      using Cons.prems e by (simp add: schedule_ok_def led_delay_def)
    from Cons.IH [OF this] show ?thesis
      using failed e by (cases has_i2s) (simp_all add: status_led_recover_bus_def)
  qed
qed

lemma strip_exact:
  "run_strip r = (if has_applied_rgb (run_thread r) then Some (applied_rgb (run_thread r)) else None) \<Longrightarrow>
   r' = fold (led_turn has_i2s) es r \<Longrightarrow>
   run_strip r' = (if has_applied_rgb (run_thread r') then Some (applied_rgb (run_thread r')) else None)"
proof (induction es arbitrary: r)
  case Nil
  then show ?case by simp
next
  case (Cons e es)
  obtain now update l where e: "e = (now, update, l)" by (cases e)
  let ?r = "led_turn has_i2s e r"
  have "run_strip ?r = (if has_applied_rgb (run_thread ?r) then Some (applied_rgb (run_thread ?r)) else None)"
    using Cons.prems(1) e by (cases rule: iteration_cases [of has_i2s update now l "run_thread r"]) auto
  then show ?case using Cons.IH [of ?r] Cons.prems(2) by simp
qed

text \<open>
  C27: The LED retry schedule. In every run of the thread, whatever the driver answers and the
  other threads report: a turn tries to update the strip exactly if the strip does not show the
  colour to be shown and the driver has not failed last, or at least
  \<open>min (1000 * 2 ^ (n - 1)) 5000\<close> ms have passed since its last attempt, where \<open>n\<close> is the number
  of failures in a row: 1 s, 2 s, 4 s, then 5 s for ever. The 8-bit counter of the failures
  saturates instead of wrapping to 0.
\<close>

theorem led_retry_schedule:
  assumes "r = fold (led_turn has_i2s) es led_run_start"
    and "attempts = led_attempts has_i2s es led_thread_start" and "n = failures_in_row attempts"
    and "0 \<le> now"
  shows "(snd (status_led_iteration has_i2s update now l (run_thread r)) \<noteq> [] \<longleftrightarrow>
           run_strip r \<noteq> Some (status_led_render (elapsed now l) l) \<and>
           (n = 0 \<or> fst (last attempts) + int (min (1000 * 2 ^ (n - 1)) 5000) \<le> now)) \<and>
         unat (failed_attempts (run_thread r)) = min n 255"
proof -
  have "schedule_ok (run_thread led_run_start) []"
    by (simp add: schedule_ok_def led_run_start_def led_thread_start_def)
  from attempts_schedule [OF this, of has_i2s es]
  have sched: "schedule_ok (run_thread r) attempts"
    unfolding assms(1,2) by (simp add: led_run_start_def)
  have delay: "led_delay k = min (1000 * 2 ^ k) 5000" for k
    using led_backoff.iterate_val [of k] by (simp add: led_delay_closed mult.commute)
  have "run_strip led_run_start = (if has_applied_rgb (run_thread led_run_start)
      then Some (applied_rgb (run_thread led_run_start)) else None)"
    by (simp add: led_run_start_def led_thread_start_def)
  from strip_exact [OF this assms(1)] have
    "snd (status_led_iteration has_i2s update now l (run_thread r)) \<noteq> [] \<longleftrightarrow>
     run_strip r \<noteq> Some (status_led_render (elapsed now l) l) \<and> next_retry_ms (run_thread r) \<le> now"
    by (auto simp: status_led_iteration_def Let_def split: sum.split)
  then show ?thesis
    using sched assms(4) by (simp add: schedule_ok_def assms(3) delay bump_iterate)
qed

text \<open>Two failures, and a turn 2 s after the second.\<close>

definition failing_turns :: "(int \<times> (status_led_rgb \<Rightarrow> status) \<times> status_led) list" where
  "failing_turns =
     [(0, (\<lambda>_. failure EIO), status_led_storage), (500, (\<lambda>_. failure EIO), status_led_storage),
      (1000, (\<lambda>_. failure EIO), status_led_storage)]"

theorem led_retry_schedule_witness:
  "snd (status_led_iteration True (\<lambda>_. success) 2999 status_led_storage
      (run_thread (fold (led_turn True) failing_turns led_run_start))) = [] \<and>
   snd (status_led_iteration True (\<lambda>_. success) 3000 status_led_storage
      (run_thread (fold (led_turn True) failing_turns led_run_start))) \<noteq> []"
proof -
  let ?r = "fold (led_turn True) failing_turns led_run_start"
  have att: "led_attempts True failing_turns led_thread_start = [(0, False), (1000, False)]"
    by code_simp
  have strip: "run_strip ?r = None" by code_simp
  note led = led_retry_schedule [OF refl refl refl, where has_i2s = True and es = failing_turns
      and l = status_led_storage and update = "\<lambda>_. success", unfolded att strip]
  have "failures_in_row [(0, False), (1000, False)] = 2" by (simp add: failures_in_row_def)
  then show ?thesis using led [of 2999] led [of 3000] by simp
qed

text \<open>
  Starting the observer never fails. \<open>status_led_start\<close> returns 0 whatever the devicetree
  and the hardware offer; it creates the thread exactly when the observer is enabled, a strip
  is present and ready, and the observer is not yet running; started or not, a second call
  changes nothing.
\<close>

theorem led_start_non_fatal:
  "let (st, created, l') = status_led_start c has_strip ready now l
   in st = success \<and>
      (created \<longleftrightarrow> status_led_enable c \<and> has_strip \<and> ready \<and> \<not> status_led_running l) \<and>
      (if created then l' = l\<lparr>status_led_started_ms := now, status_led_running := True\<rparr> else l' = l) \<and>
      (created \<or> status_led_running l \<longrightarrow>
         status_led_start c has_strip' ready' now' l' = (success, False, l'))"
  by (simp add: status_led_start_def Let_def split: prod.split)

theorem led_start_non_fatal_witness:
  "let (st, created, l') = status_led_start default_config True True 0 status_led_storage
   in st = success \<and> created \<and>
      status_led_start default_config True True 9 l' = (success, False, l')"
proof -
  have "status_led_enable default_config" by (simp add: default_config_def)
  moreover have "\<not> status_led_running status_led_storage" by (simp add: status_led_storage_def)
  ultimately show ?thesis
    using led_start_non_fatal [of default_config True True 0 status_led_storage True True 9]
    by (auto simp: split_beta Let_def)
qed

end
