(* ===== verification/Uart.thy ===== *)
theory Uart
  imports Bridge Status_Led
begin

text \<open>
  \<open>src/uart_nmea.c\<close> and \<open>src/uart_nmea.h\<close>: the thread that polls the serial port, assembles
  lines and publishes each complete one to the bridge, and its counters. The bytes and the
  instants at which they are read are arguments.
\<close>

section \<open>State\<close>

record uart_nmea_stats =
  bytes_rx :: u32
  lines_rx :: u32
  overlong_lines :: u32

text \<open>The static variables \<open>uart_stats\<close> and \<open>started\<close>.\<close>

record uart_nmea =
  uart_stats :: uart_nmea_stats
  uart_started :: bool

definition uart_storage :: uart_nmea where
  "uart_storage =
     \<lparr>uart_stats = \<lparr>bytes_rx = 0, lines_rx = 0, overlong_lines = 0\<rparr>, uart_started = False\<rparr>"

text \<open>
  The local variables of \<open>uart_rx_thread\<close>: \<open>line\<close> is the whole array, of which the first
  \<open>line_len\<close> bytes are the line so far.
\<close>

record uart_thread =
  line :: "u8 list"
  line_len :: nat
  dropping_overlong :: bool

text \<open>The thread before its first byte; the array is not initialised and may hold anything.\<close>

definition uart_thread_start :: "u8 list \<Rightarrow> uart_thread" where
  "uart_thread_start garbage = \<lparr>line = garbage, line_len = 0, dropping_overlong = False\<rparr>"

text \<open>What the thread works on.\<close>

record 'q uart_world =
  uart_rx :: uart_thread
  uart_nmea_of :: uart_nmea
  uart_bridge :: "'q bridge"
  uart_led :: status_led

section \<open>The receive thread\<close>

abbreviation newline :: u8 where
  "newline \<equiv> 10"

definition count_stat ::
    "(uart_nmea_stats \<Rightarrow> uart_nmea_stats) \<Rightarrow> 'q uart_world \<Rightarrow> 'q uart_world" where
  "count_stat f w =
     w\<lparr>uart_nmea_of := (uart_nmea_of w)\<lparr>uart_stats := f (uart_stats (uart_nmea_of w))\<rparr>\<rparr>"

text \<open>\<open>if (ch == '\n')\<close> at the end of the loop body: publish the line.\<close>

definition uart_end_of_line ::
    "app_config \<Rightarrow> 'q msgq_ops \<Rightarrow> int \<Rightarrow> 'q uart_world \<Rightarrow> 'q uart_world" where
  "uart_end_of_line c Q now w =
     (let th = uart_rx w;
          b = snd (nmea_bridge_publish_frame c Q (Some (line th)) (line_len th) (uart_bridge w));
          l = status_led_nmea_frame_received c now (uart_led w)
      in count_stat (\<lambda>s. s\<lparr>lines_rx := lines_rx s + 1\<rparr>)
           (w\<lparr>uart_bridge := b, uart_led := l, uart_rx := th\<lparr>line_len := 0\<rparr>\<rparr>))"

text \<open>The body of the inner loop for one byte read at time \<open>now\<close>.\<close>

definition uart_rx_byte ::
    "app_config \<Rightarrow> 'q msgq_ops \<Rightarrow> u8 \<times> int \<Rightarrow> 'q uart_world \<Rightarrow> 'q uart_world" where
  "uart_rx_byte c Q e w0 =
     (let (ch, now) = e;
          w = count_stat (\<lambda>s. s\<lparr>bytes_rx := bytes_rx s + 1\<rparr>) w0;
          th = uart_rx w
      in if dropping_overlong th
         then (if ch = newline
               then w\<lparr>uart_rx := th\<lparr>dropping_overlong := False, line_len := 0\<rparr>\<rparr>
               else w)
         else if line_len th < nmea_frame_max_len c
         then (let w1 = w\<lparr>uart_rx := th\<lparr>line := (line th)[line_len th := ch],
                                         line_len := Suc (line_len th)\<rparr>\<rparr>
               in if ch = newline then uart_end_of_line c Q now w1 else w1)
         else count_stat (\<lambda>s. s\<lparr>overlong_lines := overlong_lines s + 1\<rparr>)
                (w\<lparr>uart_rx := th\<lparr>dropping_overlong := True, line_len := 0\<rparr>\<rparr>))"

text \<open>
  One turn of the outer loop: the bytes \<open>uart_poll_in\<close> yields before it reports that there is
  none. The second component says whether the thread sleeps 2 ms before the next turn.
\<close>

definition uart_rx_turn ::
    "app_config \<Rightarrow> 'q msgq_ops \<Rightarrow> (u8 \<times> int) list \<Rightarrow> 'q uart_world \<Rightarrow> 'q uart_world \<times> bool" where
  "uart_rx_turn c Q es w = (fold (uart_rx_byte c Q) es w, es = [])"

section \<open>Start and statistics\<close>

text \<open>\<open>ready\<close>: the answer of \<open>device_is_ready\<close>. The second component: the thread was created.\<close>

definition uart_nmea_start :: "bool \<Rightarrow> uart_nmea \<Rightarrow> status \<times> bool \<times> uart_nmea" where
  "uart_nmea_start ready u =
     (if \<not> ready then (failure ENODEV, False, u)
      else if \<not> uart_started u then (success, True, u\<lparr>uart_started := True\<rparr>)
      else (success, False, u))"

lemma uart_start_stats [simp]:
  "uart_stats (snd (snd (uart_nmea_start ready u))) = uart_stats u"
  by (simp add: uart_nmea_start_def)

definition uart_nmea_get_stats ::
    "uart_nmea \<Rightarrow> uart_nmea_stats option \<Rightarrow> uart_nmea_stats option" where
  "uart_nmea_get_stats u stats = (if stats \<noteq> None then Some (uart_stats u) else None)"

end
