(* ===== verification/Uart_Facts.thy ===== *)
theory Uart_Facts
  imports Uart Bridge_Facts
begin

text \<open>
  The properties of the serial receiver: what it publishes is the sequence of complete lines of
  the byte stream that fit a frame, it never writes outside its buffer, and the bridge never
  refuses what it publishes. One corner of the framing loses a line; it is stated as such.
\<close>

section \<open>What a stretch of bytes adds\<close>

definition uart_publish ::
    "app_config \<Rightarrow> 'q msgq_ops \<Rightarrow> u8 list \<Rightarrow> 'q bridge \<Rightarrow> 'q bridge" where
  "uart_publish c Q l b = snd (nmea_bridge_publish_frame c Q (Some l) (length l) b)"

text \<open>
  From \<open>w\<close> to \<open>w'\<close>: \<open>n\<close> bytes were read, the lines \<open>ls\<close> published, \<open>k\<close> lines found overlong.
\<close>

definition uart_adds ::
    "app_config \<Rightarrow> 'q msgq_ops \<Rightarrow> nat \<Rightarrow> u8 list list \<Rightarrow> nat \<Rightarrow> 'q uart_world \<Rightarrow> 'q uart_world
       \<Rightarrow> bool" where
  "uart_adds c Q n ls k w w' \<longleftrightarrow>
     uart_bridge w' = fold (uart_publish c Q) ls (uart_bridge w) \<and>
     uart_stats (uart_nmea_of w') =
       \<lparr>bytes_rx = bytes_rx (uart_stats (uart_nmea_of w)) + word_of_nat n,
        lines_rx = lines_rx (uart_stats (uart_nmea_of w)) + word_of_nat (length ls),
        overlong_lines = overlong_lines (uart_stats (uart_nmea_of w)) + word_of_nat k\<rparr>"

lemma uart_adds_refl: "uart_adds c Q 0 [] 0 w w"
  by (simp add: uart_adds_def)

lemma uart_adds_trans:
  "uart_adds c Q n1 l1 k1 w w1 \<Longrightarrow> uart_adds c Q n2 l2 k2 w1 w2 \<Longrightarrow>
     uart_adds c Q (n1 + n2) (l1 @ l2) (k1 + k2) w w2"
  by (simp add: uart_adds_def add.assoc)

text \<open>The two modes of the thread between bytes: a line so far, or skipping to the next line.\<close>

definition holding :: "app_config \<Rightarrow> u8 list \<Rightarrow> uart_thread \<Rightarrow> bool" where
  "holding c acc th \<longleftrightarrow>
     \<not> dropping_overlong th \<and> line_len th = length acc \<and> take (length acc) (line th) = acc \<and>
     length (line th) = nmea_frame_max_len c \<and> length acc \<le> nmea_frame_max_len c"

definition skipping :: "app_config \<Rightarrow> uart_thread \<Rightarrow> bool" where
  "skipping c th \<longleftrightarrow> dropping_overlong th \<and> line_len th = 0 \<and>
     length (line th) = nmea_frame_max_len c"

definition uart_thread_ok :: "app_config \<Rightarrow> uart_thread \<Rightarrow> bool" where
  "uart_thread_ok c th \<longleftrightarrow> (\<exists>acc. holding c acc th) \<or> skipping c th"

lemma holding_start: "length g = nmea_frame_max_len c \<Longrightarrow> holding c [] (uart_thread_start g)"
  by (simp add: holding_def uart_thread_start_def)

lemma publish_prefix:
  "nmea_bridge_publish_frame c Q (Some buf) n b = nmea_bridge_publish_frame c Q (Some (take n buf)) n b"
proof -
  have "unat (word_of_nat n :: u16) \<le> n" by (simp add: unat_of_nat)
  then have "make_frame buf n = make_frame (take n buf) n"
    by (simp add: make_frame_def Let_def min_absorb1)
  then show ?thesis by (simp add: nmea_bridge_publish_frame_def)
qed

section \<open>One byte\<close>

lemma byte_collect:
  assumes "holding c acc (uart_rx w)" and "length acc < nmea_frame_max_len c" and "ch \<noteq> newline"
  shows "holding c (acc @ [ch]) (uart_rx (uart_rx_byte c Q (ch, now) w)) \<and>
         uart_adds c Q 1 [] 0 w (uart_rx_byte c Q (ch, now) w)"
  using assms
  by (auto simp: uart_rx_byte_def holding_def count_stat_def uart_adds_def Let_def
      take_Suc_conv_app_nth)

lemma byte_newline:
  assumes "holding c acc (uart_rx w)" and "length acc < nmea_frame_max_len c"
  shows "holding c [] (uart_rx (uart_rx_byte c Q (newline, now) w)) \<and>
         uart_adds c Q 1 [acc @ [newline]] 0 w (uart_rx_byte c Q (newline, now) w)"
proof -
  let ?buf = "(line (uart_rx w))[length acc := newline]"
  have "take (Suc (length acc)) ?buf = acc @ [newline]"
    using assms by (simp add: holding_def take_Suc_conv_app_nth)
  then have "nmea_bridge_publish_frame c Q (Some ?buf) (Suc (length acc)) (uart_bridge w) =
      nmea_bridge_publish_frame c Q (Some (acc @ [newline])) (Suc (length acc)) (uart_bridge w)"
    by (subst publish_prefix) simp
  then show ?thesis
    using assms
    by (simp add: uart_rx_byte_def holding_def count_stat_def uart_adds_def uart_publish_def
        Let_def uart_end_of_line_def)
qed

lemma byte_overflow:
  assumes "holding c acc (uart_rx w)" and "length acc = nmea_frame_max_len c"
  shows "skipping c (uart_rx (uart_rx_byte c Q (ch, now) w)) \<and>
         uart_adds c Q 1 [] 1 w (uart_rx_byte c Q (ch, now) w)"
  using assms
  by (auto simp: uart_rx_byte_def holding_def skipping_def count_stat_def uart_adds_def Let_def)

lemma byte_skip:
  assumes "skipping c (uart_rx w)"
  shows "(if ch = newline then holding c [] (uart_rx (uart_rx_byte c Q (ch, now) w))
          else skipping c (uart_rx (uart_rx_byte c Q (ch, now) w))) \<and>
         uart_adds c Q 1 [] 0 w (uart_rx_byte c Q (ch, now) w)"
  using assms
  by (auto simp: uart_rx_byte_def holding_def skipping_def count_stat_def uart_adds_def Let_def)

text \<open>The three things a byte can do to a line so far.\<close>

lemma hold_cases:
  assumes "holding c acc (uart_rx w)" and "w' = uart_rx_byte c Q (ch, now) w"
  obtains (collect) "length acc < nmea_frame_max_len c" "ch \<noteq> newline"
      "holding c (acc @ [ch]) (uart_rx w')" "uart_adds c Q 1 [] 0 w w'"
  | (line) "length acc < nmea_frame_max_len c" "ch = newline"
      "holding c [] (uart_rx w')" "uart_adds c Q 1 [acc @ [newline]] 0 w w'"
  | (overflow) "length acc = nmea_frame_max_len c" "skipping c (uart_rx w')"
      "uart_adds c Q 1 [] 1 w w'"
proof (cases "length acc < nmea_frame_max_len c")
  case True
  then show ?thesis
    using that byte_collect [OF assms(1) True, of ch Q now] byte_newline [OF assms(1) True, of Q now]
      assms(2) by (cases "ch = newline") simp_all
next
  case False
  then have "length acc = nmea_frame_max_len c" using assms(1) by (simp add: holding_def)
  then show ?thesis using that(3) byte_overflow [OF assms(1), of Q ch now] assms(2) by simp
qed

text \<open>What one byte adds, whatever the thread was doing.\<close>

lemma byte_adds:
  assumes "uart_thread_ok c (uart_rx w)" and "w' = uart_rx_byte c Q (ch, now) w"
  obtains ls k where "uart_adds c Q 1 ls k w w'" "uart_thread_ok c (uart_rx w')"
    "\<forall>l \<in> set ls. 0 < length l \<and> length l \<le> nmea_frame_max_len c"
proof (cases "skipping c (uart_rx w)")
  case True
  from byte_skip [OF this, of ch Q now] assms(2) show ?thesis
    using that [of "[]" 0] by (auto simp: uart_thread_ok_def split: if_splits)
next
  case False
  then obtain acc where h: "holding c acc (uart_rx w)" using assms(1) by (auto simp: uart_thread_ok_def)
  from h assms(2) show ?thesis
  proof (cases rule: hold_cases)
    case collect
    then show ?thesis using that [of "[]" 0] by (auto simp: uart_thread_ok_def)
  next
    case line
    then show ?thesis using that [of "[acc @ [newline]]" 0] by (auto simp: uart_thread_ok_def)
  next
    case overflow
    then show ?thesis using that [of "[]" 1] by (auto simp: uart_thread_ok_def)
  qed
qed

lemma byte_ok: "uart_thread_ok c (uart_rx w) \<Longrightarrow> uart_thread_ok c (uart_rx (uart_rx_byte c Q e w))"
  by (cases e) (metis byte_adds)

interpretation uart_machine: invariant_machine
  "uart_rx_byte c Q" "\<lambda>w. uart_thread_ok c (uart_rx w)" for c Q
  by unfold_locales (rule byte_ok)

section \<open>Stretches without a line end, and whole lines\<close>

lemma stretch_skip:
  assumes "skipping c (uart_rx w)" and "newline \<notin> fst ` set es"
  shows "skipping c (uart_rx (fold (uart_rx_byte c Q) es w)) \<and>
         uart_adds c Q (length es) [] 0 w (fold (uart_rx_byte c Q) es w)"
  using assms
proof (induction es arbitrary: w)
  case Nil
  then show ?case by (simp add: uart_adds_refl)
next
  case (Cons e es)
  obtain ch now where e: "e = (ch, now)" by (cases e)
  have ne: "ch \<noteq> newline" "newline \<notin> fst ` set es" using Cons.prems(2) e by auto
  note s = byte_skip [OF Cons.prems(1), of ch Q now]
  then have "skipping c (uart_rx (uart_rx_byte c Q (ch, now) w))" using ne by simp
  from Cons.IH [OF this ne(2)] s show ?case
    using uart_adds_trans [of c Q 1 "[]" 0 w "uart_rx_byte c Q (ch, now) w" "length es" "[]" 0] e
    by simp
qed

lemma stretch_hold:
  assumes "holding c acc (uart_rx w)" and "newline \<notin> fst ` set es"
  shows "(if length acc + length es \<le> nmea_frame_max_len c
          then holding c (acc @ map fst es) (uart_rx (fold (uart_rx_byte c Q) es w))
          else skipping c (uart_rx (fold (uart_rx_byte c Q) es w))) \<and>
         uart_adds c Q (length es) [] (if length acc + length es \<le> nmea_frame_max_len c then 0 else 1)
           w (fold (uart_rx_byte c Q) es w)"
  using assms
proof (induction es arbitrary: acc w)
  case Nil
  then show ?case by (simp add: uart_adds_refl holding_def)
next
  case (Cons e es)
  obtain ch now where e: "e = (ch, now)" by (cases e)
  have ne: "ch \<noteq> newline" "newline \<notin> fst ` set es" using Cons.prems(2) e by auto
  let ?w = "uart_rx_byte c Q (ch, now) w"
  show ?case
  proof (cases "length acc < nmea_frame_max_len c")
    case True
    note s = byte_collect [OF Cons.prems(1) True ne(1), of Q now]
    note t = Cons.IH [OF s [THEN conjunct1] ne(2)]
    show ?thesis
      using t uart_adds_trans [OF s [THEN conjunct2] t [THEN conjunct2]] e
      by (simp split: if_splits)
  next
    case False
    then have len: "length acc = nmea_frame_max_len c" using Cons.prems(1) by (simp add: holding_def)
    note s = byte_overflow [OF Cons.prems(1) len, of Q ch now]
    note t = stretch_skip [OF s [THEN conjunct1] ne(2), of Q]
    show ?thesis
      using t uart_adds_trans [OF s [THEN conjunct2] t [THEN conjunct2]] e len by simp
  qed
qed

text \<open>A line: bytes that are not a line end, then one.\<close>

definition is_line :: "u8 list \<Rightarrow> bool" where
  "is_line l \<longleftrightarrow> l \<noteq> [] \<and> last l = newline \<and> newline \<notin> set (butlast l)"

lemma is_lineE:
  assumes "is_line (map fst es)"
  obtains fs now where "es = fs @ [(newline, now)]" "newline \<notin> fst ` set fs"
proof -
  have "es \<noteq> []" using assms by (auto simp: is_line_def)
  then have "es = butlast es @ [(fst (last es), snd (last es))]" by simp
  moreover have "fst (last es) = newline" using assms \<open>es \<noteq> []\<close> by (simp add: is_line_def last_map)
  moreover have "newline \<notin> fst ` set (butlast es)"
    using assms by (simp add: is_line_def flip: map_butlast)
  ultimately show ?thesis using that by metis
qed

lemma line_skip:
  assumes "skipping c (uart_rx w)" and "is_line (map fst es)"
  shows "holding c [] (uart_rx (fold (uart_rx_byte c Q) es w)) \<and>
         uart_adds c Q (length es) [] 0 w (fold (uart_rx_byte c Q) es w)"
proof -
  obtain fs now where es: "es = fs @ [(newline, now)]" "newline \<notin> fst ` set fs"
    using assms(2) by (rule is_lineE)
  note s = stretch_skip [OF assms(1) es(2), of Q]
  note t = byte_skip [OF s [THEN conjunct1], of newline Q now]
  show ?thesis using t uart_adds_trans [OF s [THEN conjunct2] t [THEN conjunct2]] es by simp
qed

text \<open>The whole behaviour for one line from the idle state, the corner case included.\<close>

lemma line_hold:
  assumes "holding c [] (uart_rx w)" and "is_line (map fst es)"
  shows "(if length es = Suc (nmea_frame_max_len c)
          then skipping c (uart_rx (fold (uart_rx_byte c Q) es w))
          else holding c [] (uart_rx (fold (uart_rx_byte c Q) es w))) \<and>
         uart_adds c Q (length es)
           (if length es \<le> nmea_frame_max_len c then [map fst es] else [])
           (if length es \<le> nmea_frame_max_len c then 0 else 1)
           w (fold (uart_rx_byte c Q) es w)"
proof -
  obtain fs now where es: "es = fs @ [(newline, now)]" "newline \<notin> fst ` set fs"
    using assms(2) by (rule is_lineE)
  let ?w = "fold (uart_rx_byte c Q) fs w"
  note s = stretch_hold [OF assms(1) es(2), of Q]
  consider "Suc (length fs) \<le> nmea_frame_max_len c" | "length fs = nmea_frame_max_len c"
    | "nmea_frame_max_len c < length fs" by linarith
  then show ?thesis
  proof cases
    case 1
    then have "holding c (map fst fs) (uart_rx ?w)" using s by simp
    note t = byte_newline [OF this, of Q now]
    show ?thesis
      using 1 s t uart_adds_trans [OF s [THEN conjunct2], of 1 "[map fst fs @ [newline]]" 0] es
      by (simp split: if_splits)
  next
    case 2
    then have "holding c (map fst fs) (uart_rx ?w)" using s by simp
    note t = byte_overflow [OF this, of Q newline now]
    show ?thesis
      using 2 s t uart_adds_trans [OF s [THEN conjunct2], of 1 "[]" 1] es by simp
  next
    case 3
    then have "skipping c (uart_rx ?w)" using s by simp
    note t = byte_skip [OF this, of newline Q now]
    show ?thesis
      using 3 t uart_adds_trans [OF s [THEN conjunct2] t [THEN conjunct2]] es by simp
  qed
qed

section \<open>Whole streams\<close>

text \<open>
  What the thread publishes of a sequence of lines: those that fit, except that a line of
  exactly \<open>NMEA_FRAME_MAX_LEN + 1\<close> bytes takes the next line with it.
\<close>

fun frames_of :: "nat \<Rightarrow> u8 list list \<Rightarrow> u8 list list" where
  "frames_of m [] = []"
| "frames_of m (l # ls) =
     (if length l \<le> m then l # frames_of m ls
      else if length l = Suc m then frames_of m (tl ls)
      else frames_of m ls)"

lemma frames_of_regular:
  "\<forall>l \<in> set ls. length l \<noteq> Suc m \<Longrightarrow> frames_of m ls = filter (\<lambda>l. length l \<le> m) ls"
  by (induction ls) auto

lemma split_first: "map fst es = l @ r \<Longrightarrow> \<exists>fs gs. es = fs @ gs \<and> map fst fs = l \<and> map fst gs = r"
  by (metis append_eq_map_conv)

lemma stream_regular:
  assumes "holding c [] (uart_rx w)" and "map fst es = concat ls @ rest"
    and "\<forall>l \<in> set ls. is_line l \<and> length l \<noteq> Suc (nmea_frame_max_len c)"
    and "newline \<notin> set rest"
  shows "uart_adds c Q (length es) (filter (\<lambda>l. length l \<le> nmea_frame_max_len c) ls)
           (length (filter (\<lambda>l. nmea_frame_max_len c < length l) (ls @ [rest])))
           w (fold (uart_rx_byte c Q) es w)"
  using assms
proof (induction ls arbitrary: es w)
  case Nil
  then have "newline \<notin> fst ` set es" by (metis append_Nil concat.simps(1) set_map)
  from stretch_hold [OF Nil(1) this, of Q] show ?case
    using Nil(2) by (auto split: if_splits)
next
  case (Cons l ls)
  then obtain fs gs where s: "es = fs @ gs" "map fst fs = l" "map fst gs = concat ls @ rest"
    using split_first [of es l "concat ls @ rest"] by auto
  have l: "is_line (map fst fs)" "length fs \<noteq> Suc (nmea_frame_max_len c)"
    using Cons.prems(3) s(2) by auto
  note h = line_hold [OF Cons.prems(1) l(1), of Q]
  then have "holding c [] (uart_rx (fold (uart_rx_byte c Q) fs w))" using l(2) by simp
  from Cons.IH [OF this s(3)] Cons.prems
  have "uart_adds c Q (length gs) (filter (\<lambda>l. length l \<le> nmea_frame_max_len c) ls)
      (length (filter (\<lambda>l. nmea_frame_max_len c < length l) (ls @ [rest])))
      (fold (uart_rx_byte c Q) fs w) (fold (uart_rx_byte c Q) gs (fold (uart_rx_byte c Q) fs w))"
    by simp
  from uart_adds_trans [OF h [THEN conjunct2] this] show ?case
    using s(1,2) by (auto split: if_splits)
qed

text \<open>Everything a run publishes is a line of the input that fits, whatever the input.\<close>

lemma stream_lines:
  assumes "holding c [] (uart_rx w)"
  shows "\<exists>ls k. uart_adds c Q (length es) ls k w (fold (uart_rx_byte c Q) es w) \<and>
    (\<forall>l \<in> set ls. is_line l \<and> length l \<le> nmea_frame_max_len c \<and> sublist l (map fst es)) \<and>
    (skipping c (uart_rx (fold (uart_rx_byte c Q) es w)) \<or>
     (\<exists>acc. holding c acc (uart_rx (fold (uart_rx_byte c Q) es w)) \<and> newline \<notin> set acc \<and>
        suffix acc (map fst es)))"
proof (induction es rule: rev_induct)
  case Nil
  then show ?case using assms uart_adds_refl [of c Q w]
    by (intro exI [of _ "[]"] exI [of _ 0]) auto
next
  case (snoc e es)
  let ?w = "fold (uart_rx_byte c Q) es w"
  obtain ch now where e: "e = (ch, now)" by (cases e)
  obtain ls k where ih: "uart_adds c Q (length es) ls k w ?w"
      "\<forall>l \<in> set ls. is_line l \<and> length l \<le> nmea_frame_max_len c \<and> sublist l (map fst es)"
      "skipping c (uart_rx ?w) \<or>
       (\<exists>acc. holding c acc (uart_rx ?w) \<and> newline \<notin> set acc \<and> suffix acc (map fst es))"
    using snoc by auto
  have old: "\<forall>l \<in> set ls. is_line l \<and> length l \<le> nmea_frame_max_len c \<and>
      sublist l (map fst (es @ [e]))"
    using ih(2) by (auto simp: sublist_appendI sublist_order.order.trans)
  from ih(3) show ?case
  proof (elim disjE exE conjE)
    assume "skipping c (uart_rx ?w)"
    note s = byte_skip [OF this, of ch Q now]
    show ?thesis
      by (rule exI [of _ ls], rule exI [of _ k])
        (use s old uart_adds_trans [OF ih(1) s [THEN conjunct2]] e in \<open>auto split: if_splits\<close>)
  next
    fix acc
    assume acc: "holding c acc (uart_rx ?w)" "newline \<notin> set acc" "suffix acc (map fst es)"
    then have suf: "suffix (acc @ [ch]) (map fst (es @ [e]))" using e by simp
    note more = uart_adds_trans [OF ih(1), of 1 _ _ "uart_rx_byte c Q (ch, now) ?w"]
    from acc(1) refl [of "uart_rx_byte c Q (ch, now) ?w"] show ?thesis
    proof (cases rule: hold_cases)
      case overflow
      then show ?thesis using old more [OF overflow(3)] e
        by (intro exI [of _ ls] exI [of _ "Suc k"]) auto
    next
      case line
      then have "is_line (acc @ [newline])" "sublist (acc @ [newline]) (map fst (es @ [e]))"
        using acc(2) suf by (simp_all add: is_line_def suffix_imp_sublist)
      then show ?thesis using line old more [OF line(4)] e
        by (intro exI [of _ "ls @ [acc @ [newline]]"] exI [of _ k]) auto
    next
      case collect
      then show ?thesis using old more [OF collect(4)] e suf acc(2)
        by (intro exI [of _ ls] exI [of _ k]) auto
    qed
  qed
qed

text \<open>Publishing a line that fits, seen from the counters of the bridge.\<close>

lemma uart_publish_stats:
  assumes "0 < length l" and "length l \<le> nmea_frame_max_len c"
  shows "frames_in (bridge_stats (uart_publish c Q l b)) = frames_in (bridge_stats b) + 1 \<and>
         publish_invalid (bridge_stats (uart_publish c Q l b)) = publish_invalid (bridge_stats b) \<and>
         publish_oversize (bridge_stats (uart_publish c Q l b)) = publish_oversize (bridge_stats b)"
  using assms by (simp add: uart_publish_def nmea_bridge_publish_frame_def Let_def split_beta)

lemma uart_publishes_stats:
  "\<forall>l \<in> set ls. 0 < length l \<and> length l \<le> nmea_frame_max_len c \<Longrightarrow>
     frames_in (bridge_stats (fold (uart_publish c Q) ls b)) =
       frames_in (bridge_stats b) + word_of_nat (length ls) \<and>
     publish_invalid (bridge_stats (fold (uart_publish c Q) ls b)) = publish_invalid (bridge_stats b) \<and>
     publish_oversize (bridge_stats (fold (uart_publish c Q) ls b)) = publish_oversize (bridge_stats b)"
  by (induction ls arbitrary: b) (auto simp: uart_publish_stats)

section \<open>Properties\<close>

text \<open>
  C10: The serial thread publishes the lines of its input. Cut the bytes received into lines,
  each ended by a line feed, and an unfinished rest. If no line has exactly
  \<open>NMEA_FRAME_MAX_LEN + 1\<close> bytes, the thread has published, in order and byte for byte with the
  terminator, exactly the lines of at most \<open>NMEA_FRAME_MAX_LEN\<close> bytes; \<open>lines_rx\<close> counts them,
  \<open>overlong_lines\<close> the others (an overlong rest included), and \<open>bytes_rx\<close> the bytes.
\<close>

theorem uart_publishes_lines:
  assumes "map fst es = concat ls @ rest"
    and "\<forall>l \<in> set ls. is_line l \<and> length l \<noteq> Suc (nmea_frame_max_len c)"
    and "newline \<notin> set rest"
    and "uart_rx w = uart_thread_start g" and "length g = nmea_frame_max_len c"
    and "w' = fst (uart_rx_turn c Q es w)"
  shows "uart_bridge w' =
           fold (\<lambda>l b. snd (nmea_bridge_publish_frame c Q (Some l) (length l) b))
             (filter (\<lambda>l. length l \<le> nmea_frame_max_len c) ls) (uart_bridge w) \<and>
         uart_stats (uart_nmea_of w') =
           \<lparr>bytes_rx = bytes_rx (uart_stats (uart_nmea_of w)) + word_of_nat (length es),
            lines_rx = lines_rx (uart_stats (uart_nmea_of w)) +
              word_of_nat (length (filter (\<lambda>l. length l \<le> nmea_frame_max_len c) ls)),
            overlong_lines = overlong_lines (uart_stats (uart_nmea_of w)) +
              word_of_nat (length (filter (\<lambda>l. nmea_frame_max_len c < length l) (ls @ [rest])))\<rparr>"
proof -
  have "holding c [] (uart_rx w)" using assms(4,5) by (simp add: holding_start)
  from stream_regular [OF this assms(1-3), of Q] show ?thesis
    by (simp add: uart_adds_def assms(6) uart_rx_turn_def uart_publish_def [abs_def])
qed

text \<open>A world to run the receiver in: an initialised bridge, 32 bytes per frame.\<close>

definition uart_config :: app_config where
  "uart_config = small_config\<lparr>nmea_frame_max_len := 32\<rparr>"

definition uart_world0 :: "ref_queue uart_world" where
  "uart_world0 =
     \<lparr>uart_rx = uart_thread_start (replicate 32 0), uart_nmea_of = uart_storage,
      uart_bridge = nmea_bridge_init uart_config ref_msgq (bridge_storage uart_config ref_msgq (0, [])),
      uart_led = status_led_storage\<rparr>"

lemma uart_world0_facts:
  "uart_rx uart_world0 = uart_thread_start (replicate 32 0)"
  "length (replicate 32 (0 :: u8)) = nmea_frame_max_len uart_config"
  "nmea_frame_max_len uart_config = 32"
  by (simp_all add: uart_world0_def uart_config_def)

theorem uart_publishes_lines_witness:
  "uart_bridge (fst (uart_rx_turn uart_config ref_msgq
       [(36, 0), (10, 0), (33, 1), (65, 1), (10, 2), (36, 5)] uart_world0)) =
     fold (\<lambda>l b. snd (nmea_bridge_publish_frame uart_config ref_msgq (Some l) (length l) b))
       (filter (\<lambda>l. length l \<le> 32) [[36, 10], [33, 65, 10]]) (uart_bridge uart_world0)"
proof -
  let ?es = "[(36, 0), (10, 0), (33, 1), (65, 1), (10, 2), (36, 5)] :: (u8 \<times> int) list"
  have "map fst ?es = concat [[36, 10], [33, 65, 10]] @ [36]" by simp
  moreover have "\<forall>l \<in> set [[36, 10], [33, 65, 10]].
      is_line l \<and> length l \<noteq> Suc (nmea_frame_max_len uart_config)"
    by (simp add: is_line_def uart_world0_facts(3))
  moreover have "newline \<notin> set [36]" by simp
  ultimately show ?thesis
    using uart_publishes_lines [OF _ _ _ uart_world0_facts(1,2) refl, of ?es, where Q = ref_msgq]
    unfolding uart_world0_facts(3) by blast
qed

text \<open>
  C39: A line one byte too long swallows its successor. When a line has exactly
  \<open>NMEA_FRAME_MAX_LEN + 1\<close> bytes, the byte that overflows the buffer is the line feed itself;
  the thread drops it and then skips to the next line feed, so the next line, however well
  formed, is neither published nor counted: one overlong line is counted for two lost ones.
\<close>

theorem uart_overflow_swallows_next_line:
  assumes "map fst es = l1 @ l2" and "is_line l1" and "is_line l2"
    and "length l1 = Suc (nmea_frame_max_len c)"
    and "uart_rx w = uart_thread_start g" and "length g = nmea_frame_max_len c"
    and "w' = fst (uart_rx_turn c Q es w)"
  shows "uart_bridge w' = uart_bridge w \<and>
         lines_rx (uart_stats (uart_nmea_of w')) = lines_rx (uart_stats (uart_nmea_of w)) \<and>
         overlong_lines (uart_stats (uart_nmea_of w')) =
           overlong_lines (uart_stats (uart_nmea_of w)) + 1"
proof -
  obtain fs gs where s: "es = fs @ gs" "map fst fs = l1" "map fst gs = l2"
    using split_first [OF assms(1)] by blast
  have "holding c [] (uart_rx w)" using assms(5,6) by (simp add: holding_start)
  note h = line_hold [OF this, of fs Q]
  have len: "length fs = Suc (nmea_frame_max_len c)" using s(2) assms(4) by auto
  then have "skipping c (uart_rx (fold (uart_rx_byte c Q) fs w))" using h s(2) assms(2) by simp
  note t = line_skip [OF this, of gs Q]
  have "uart_adds c Q (length fs) [] 1 w (fold (uart_rx_byte c Q) fs w)"
    using h len s(2) assms(2) by simp
  from uart_adds_trans [OF this t [THEN conjunct2]] show ?thesis
    using s assms(3,7) by (simp add: uart_adds_def uart_rx_turn_def)
qed

theorem uart_overflow_swallows_next_line_witness:
  "uart_bridge (fst (uart_rx_turn uart_config ref_msgq
       (map (\<lambda>b. (b, 0)) (replicate 32 65 @ [10] @ [36, 10])) uart_world0)) = uart_bridge uart_world0"
proof -
  have c: "nmea_frame_max_len uart_config = 32" by (simp add: uart_config_def)
  have "map fst (map (\<lambda>b. (b, 0 :: int)) (replicate 32 65 @ [10] @ [36, 10])) =
      (replicate 32 65 @ [10]) @ [36, 10 :: u8]"
    by (simp only: map_map comp_def fst_conv map_ident append_assoc)
  moreover have "is_line (replicate 32 65 @ [10])" "is_line [36, 10]"
    by (simp_all add: is_line_def butlast_append)
  moreover have "length (replicate 32 (65 :: u8) @ [10]) = Suc (nmea_frame_max_len uart_config)"
    by (simp add: c)
  ultimately show ?thesis
    by (rule uart_overflow_swallows_next_line [OF _ _ _ _ uart_world0_facts(1,2) refl,
          THEN conjunct1])
qed

text \<open>
  C30: The bridge never refuses the serial thread. For any bytes whatever, the thread stays
  inside its buffer, every frame it publishes is a line of the input (one line feed, at its
  end) of at most \<open>NMEA_FRAME_MAX_LEN\<close> bytes, the bridge's \<open>publish_invalid\<close> and
  \<open>publish_oversize\<close> do not move, and its \<open>frames_in\<close> grows exactly as \<open>lines_rx\<close> does.
\<close>

theorem uart_never_refused:
  assumes "uart_rx w = uart_thread_start g" and "length g = nmea_frame_max_len c"
    and "w' = fst (uart_rx_turn c Q es w)"
  shows "length (line (uart_rx w')) = nmea_frame_max_len c \<and>
         line_len (uart_rx w') \<le> nmea_frame_max_len c \<and>
         (\<exists>ls. uart_bridge w' =
             fold (\<lambda>l b. snd (nmea_bridge_publish_frame c Q (Some l) (length l) b)) ls (uart_bridge w) \<and>
           (\<forall>l \<in> set ls. is_line l \<and> length l \<le> nmea_frame_max_len c \<and> sublist l (map fst es))) \<and>
         publish_invalid (bridge_stats (uart_bridge w')) =
           publish_invalid (bridge_stats (uart_bridge w)) \<and>
         publish_oversize (bridge_stats (uart_bridge w')) =
           publish_oversize (bridge_stats (uart_bridge w)) \<and>
         frames_in (bridge_stats (uart_bridge w')) - frames_in (bridge_stats (uart_bridge w)) =
           lines_rx (uart_stats (uart_nmea_of w')) - lines_rx (uart_stats (uart_nmea_of w))"
proof -
  have h: "holding c [] (uart_rx w)" using assms(1,2) by (simp add: holding_start)
  have w': "w' = fold (uart_rx_byte c Q) es w" by (simp add: assms(3) uart_rx_turn_def)
  have "uart_thread_ok c (uart_rx w')"
    unfolding w' by (rule uart_machine.run_inv) (use h in \<open>auto simp: uart_thread_ok_def\<close>)
  then have buf: "length (line (uart_rx w')) = nmea_frame_max_len c"
      "line_len (uart_rx w') \<le> nmea_frame_max_len c"
    by (auto simp: uart_thread_ok_def holding_def skipping_def)
  obtain ls k where r: "uart_adds c Q (length es) ls k w w'"
      "\<forall>l \<in> set ls. is_line l \<and> length l \<le> nmea_frame_max_len c \<and> sublist l (map fst es)"
    using stream_lines [OF h, of Q es] w' by blast
  then have "\<forall>l \<in> set ls. 0 < length l \<and> length l \<le> nmea_frame_max_len c"
    by (auto simp: is_line_def)
  note p = uart_publishes_stats [OF this, of Q "uart_bridge w"]
  have "\<exists>ls. uart_bridge w' =
        fold (\<lambda>l b. snd (nmea_bridge_publish_frame c Q (Some l) (length l) b)) ls (uart_bridge w) \<and>
      (\<forall>l \<in> set ls. is_line l \<and> length l \<le> nmea_frame_max_len c \<and> sublist l (map fst es))"
    by (rule exI [of _ ls]) (use r in \<open>simp add: uart_adds_def uart_publish_def [abs_def]\<close>)
  moreover have "publish_invalid (bridge_stats (uart_bridge w')) =
        publish_invalid (bridge_stats (uart_bridge w)) \<and>
      publish_oversize (bridge_stats (uart_bridge w')) =
        publish_oversize (bridge_stats (uart_bridge w)) \<and>
      frames_in (bridge_stats (uart_bridge w')) - frames_in (bridge_stats (uart_bridge w)) =
        lines_rx (uart_stats (uart_nmea_of w')) - lines_rx (uart_stats (uart_nmea_of w))"
    using r(1) p by (simp add: uart_adds_def)
  ultimately show ?thesis using buf by blast
qed

theorem uart_never_refused_witness:
  "publish_oversize (bridge_stats (uart_bridge (fst (uart_rx_turn uart_config ref_msgq
       (map (\<lambda>b. (b, 0)) (replicate 100 65 @ [10, 10])) uart_world0)))) = 0"
proof -
  have "publish_oversize (bridge_stats (uart_bridge uart_world0)) = 0"
    by (simp add: uart_world0_def nmea_bridge_init_def bridge_storage_def zero_bridge_stats_def)
  then show ?thesis
    using uart_never_refused [OF uart_world0_facts(1,2) refl, of ref_msgq
        "map (\<lambda>b. (b, 0)) (replicate 100 65 @ [10, 10])"]
    by (elim conjE) (simp only:)
qed

end
