(* ===== verification/Sockets.thy ===== *)
theory Sockets
  imports Prelude
begin

text \<open>
  What the code sees of Zephyr's socket calls, and the loop both the NMEA sessions and the web
  server write to send a whole buffer over a stream socket.
\<close>

text \<open>
  The answer of a call that returns a count: \<open>Inr n\<close> when it returned \<open>n\<close>, \<open>Inl e\<close> when it
  returned -1 with \<open>errno = e\<close>. A call that returns a descriptor answers likewise.
\<close>

type_synonym io_answer = "errno + nat"

definition would_block :: "errno \<Rightarrow> bool" where
  "would_block e \<longleftrightarrow> e = EAGAIN \<or> e = EWOULDBLOCK"

section \<open>Sending a whole buffer\<close>

text \<open>
  The contract of such a loop: \<open>run buf sent as wire\<close> continues after \<open>sent\<close> bytes of \<open>buf\<close>
  with the answers \<open>as\<close> of \<open>zsock_send\<close>; \<open>wire\<close> collects the bytes the socket accepted.
  \<open>None\<close> means that the answers run out first. \<open>retry\<close> are the errors after which the loop
  calls again, \<open>fit\<close> the buffers it can be given, and \<open>zero_ok\<close> tells whether a call that
  returns 0 may pass for success.
\<close>

locale transmit_loop =
  fixes run :: "'b list \<Rightarrow> nat \<Rightarrow> io_answer list \<Rightarrow> 'b list \<Rightarrow> ('r \<times> 'b list) option"
    and sent_all :: "'r \<Rightarrow> bool"
    and retry :: "errno \<Rightarrow> bool"
    and fit :: "'b list \<Rightarrow> bool"
    and zero_ok :: bool
  assumes run_done: "fit buf \<Longrightarrow> length buf \<le> sent \<Longrightarrow>
      \<exists>r. run buf sent as wire = Some (r, wire) \<and> sent_all r"
    and run_blocked: "fit buf \<Longrightarrow> sent < length buf \<Longrightarrow> run buf sent [] wire = None"
    and run_sent: "fit buf \<Longrightarrow> sent < length buf \<Longrightarrow> 0 < n \<Longrightarrow>
      run buf sent (Inr n # as) wire = run buf (sent + n) as (wire @ take n (drop sent buf))"
    and run_zero: "fit buf \<Longrightarrow> sent < length buf \<Longrightarrow>
      \<exists>r. run buf sent (Inr 0 # as) wire = Some (r, wire) \<and> (zero_ok \<or> \<not> sent_all r)"
    and run_retry: "fit buf \<Longrightarrow> sent < length buf \<Longrightarrow> retry e \<Longrightarrow>
      run buf sent (Inl e # as) wire = run buf sent as wire"
    and run_fail: "fit buf \<Longrightarrow> sent < length buf \<Longrightarrow> \<not> retry e \<Longrightarrow>
      \<exists>r. run buf sent (Inl e # as) wire = Some (r, wire) \<and> \<not> sent_all r"
begin

text \<open>
  When the loop ends, the socket has accepted the rest of the buffer, in order and once; or
  the loop failed and it has accepted a prefix of it.
\<close>

lemma run_wire:
  "fit buf \<Longrightarrow> run buf sent as wire = Some (r, wire') \<Longrightarrow>
     wire' = wire @ drop sent buf \<and> sent_all r \<or>
     (zero_ok \<or> \<not> sent_all r) \<and>
       (\<exists>k. k < length buf - sent \<and> wire' = wire @ take k (drop sent buf))"
proof (induction as arbitrary: sent wire)
  case Nil
  then show ?case using run_done [of buf sent "[]" wire] run_blocked [of buf sent wire]
    by (cases "sent < length buf") auto
next
  case (Cons a as)
  show ?case
  proof (cases "sent < length buf")
    case False
    then show ?thesis using Cons.prems run_done [of buf sent "a # as" wire] by auto
  next
    case True
    show ?thesis
    proof (cases a)
      case (Inl e)
      show ?thesis
      proof (cases "retry e")
        case rt: True
        then show ?thesis using Cons Inl True run_retry by simp
      next
        case False
        then show ?thesis using Cons.prems Inl True run_fail [of buf sent e as wire]
          by (auto intro!: exI [of _ 0])
      qed
    next
      case (Inr n)
      show ?thesis
      proof (cases "0 < n")
        case False
        then show ?thesis using Cons.prems Inr True run_zero [of buf sent as wire]
          by (auto intro!: exI [of _ 0])
      next
        case pos: True
        let ?wire = "wire @ take n (drop sent buf)"
        have split: "take n (drop sent buf) @ drop (sent + n) buf = drop sent buf"
          by (metis add.commute append_take_drop_id drop_drop)
        have "run buf (sent + n) as ?wire = Some (r, wire')"
          using Cons.prems Inr True pos run_sent by simp
        from Cons.IH [OF Cons.prems(1) this]
        consider "wire' = ?wire @ drop (sent + n) buf" "sent_all r"
          | k where "zero_ok \<or> \<not> sent_all r" "k < length buf - (sent + n)"
              "wire' = ?wire @ take k (drop (sent + n) buf)"
          by blast
        then show ?thesis
        proof cases
          case 1
          then show ?thesis using split by simp
        next
          case 2
          then have "wire' = wire @ take (n + k) (drop sent buf)"
            using take_add [of n k "drop sent buf"] by (simp add: add.commute [of sent n])
          then show ?thesis using 2(1,2) by (auto intro!: exI [of _ "n + k"])
        qed
      qed
    qed
  qed
qed

text \<open>The loop ends: each positive answer makes progress.\<close>

lemma run_ends:
  "fit buf \<Longrightarrow> length buf - sent \<le> length (filter (\<lambda>a. \<exists>n > 0. a = Inr n) as) \<Longrightarrow>
     run buf sent as wire \<noteq> None"
proof (induction as arbitrary: sent wire)
  case Nil
  then show ?case using run_done [of buf sent "[]" wire] by auto
next
  case (Cons a as)
  show ?case
  proof (cases "sent < length buf")
    case False
    then show ?thesis using Cons.prems run_done [of buf sent "a # as" wire] by auto
  next
    case True
    consider n where "a = Inr n" "0 < n" | "a = Inr 0" | e where "a = Inl e" "retry e"
      | e where "a = Inl e" "\<not> retry e" by (metis gr0I old.sum.exhaust)
    then show ?thesis
    proof cases
      case 1
      then show ?thesis using Cons run_sent True by auto
    next
      case 2
      then show ?thesis using Cons.prems run_zero [of buf sent as wire] True by auto
    next
      case 3
      then show ?thesis using Cons run_retry True by auto
    next
      case 4
      then show ?thesis using Cons.prems run_fail [of buf sent e as wire] True by auto
    qed
  qed
qed

text \<open>
  It succeeds when the peer keeps reading: every call makes progress or fails in a way that is
  tried again.
\<close>

lemma run_ok:
  "fit buf \<Longrightarrow> \<forall>a \<in> set as. (\<exists>n > 0. a = Inr n) \<or> (\<exists>e. retry e \<and> a = Inl e) \<Longrightarrow>
     length buf - sent \<le> length (filter (\<lambda>a. \<exists>n > 0. a = Inr n) as) \<Longrightarrow>
     \<exists>r. run buf sent as wire = Some (r, wire @ drop sent buf) \<and> sent_all r"
proof (induction as arbitrary: sent wire)
  case Nil
  then show ?case using run_done [of buf sent "[]" wire] by simp
next
  case (Cons a as)
  show ?case
  proof (cases "sent < length buf")
    case False
    then show ?thesis using Cons.prems run_done [of buf sent "a # as" wire] by auto
  next
    case True
    from Cons.prems(2) consider n where "a = Inr n" "0 < n" | e where "a = Inl e" "retry e" by auto
    then show ?thesis
    proof cases
      case (1 n)
      have "take n (drop sent buf) @ drop (sent + n) buf = drop sent buf"
        using append_take_drop_id [of n "drop sent buf"] by (simp add: add.commute)
      then show ?thesis
        using Cons.IH [of "sent + n" "wire @ take n (drop sent buf)"] Cons.prems 1 True run_sent
        by auto
    next
      case (2 e)
      then show ?thesis using Cons True run_retry by simp
    qed
  qed
qed

end

end
