(* ===== verification/Session.thy ===== *)
theory Session
  imports Bridge Status_Led Sockets
begin

text \<open>
  \<open>src/tcp_nmea_session.c\<close> and \<open>src/tcp_nmea_session.h\<close>: what the server and the outbound client
  run for every connection. A session opens a sink of the bridge and forwards its frames to the
  socket until the peer closes, an operation fails or the sink is gone.

  Sessions run in threads of their own and share the bridge, the LED observer and one atomic
  counter with the rest of the program. A session is therefore a machine with a program counter
  that advances past one operation on shared state at a time, so that a run of the program may
  interleave any number of sessions with everything else. The answers of the socket calls made
  in a step are the arguments of the step.
\<close>

datatype tcp_nmea_session_result =
    TCP_NMEA_SESSION_ENDED_PEER_CLOSED
  | TCP_NMEA_SESSION_ENDED_SEND_FAILED
  | TCP_NMEA_SESSION_ENDED_SINK_UNAVAILABLE
  | TCP_NMEA_SESSION_ENDED_RX_FAILED

section \<open>The two loops over the socket\<close>

text \<open>
  Both take the answers of the calls the loop makes; when these run out before the loop ends, the
  thread is still inside it. The receive loop keeps nothing between its calls, so then it has no
  result yet (\<open>None\<close>); the send loop has \<open>sent_total\<close> and what the socket has accepted.
\<close>

fun drain_socket_rx ::
    "io_answer list \<Rightarrow> tcp_nmea_session_result \<Rightarrow> (bool \<times> tcp_nmea_session_result) option" where
  "drain_socket_rx [] result = None"
| "drain_socket_rx (a # as) result =
     (case a of
        Inr received \<Rightarrow>
          if 0 < received then drain_socket_rx as result
          else Some (True, TCP_NMEA_SESSION_ENDED_PEER_CLOSED)
      | Inl e \<Rightarrow>
          if would_block e then Some (False, result)
          else Some (True, TCP_NMEA_SESSION_ENDED_RX_FAILED))"

text \<open>
  The \<open>while\<close> loop of \<open>send_all\<close>, entered with \<open>sent_total\<close> bytes sent. \<open>wire\<close> collects the bytes
  the socket has accepted: a call that returns \<open>n\<close> took the first \<open>n\<close> of the
  \<open>frame->len - sent_total\<close> bytes it was offered. \<open>Inl\<close> the new \<open>sent_total\<close>: the thread is
  blocked in a call or sleeps before the next one; \<open>Inr\<close> what the function returns, and the
  result it leaves.
\<close>

definition offered :: "nmea_frame \<Rightarrow> nat \<Rightarrow> u8 list" where
  "offered frame sent_total = take (unat (len frame) - sent_total) (drop sent_total (data frame))"

function send_loop ::
    "nmea_frame \<Rightarrow> nat \<Rightarrow> io_answer list \<Rightarrow> u8 list \<Rightarrow> tcp_nmea_session_result
       \<Rightarrow> (nat + bool \<times> tcp_nmea_session_result) \<times> u8 list" where
  "send_loop frame sent_total as wire result =
     (if \<not> sent_total < unat (len frame) then (Inr (False, result), wire)
      else case as of
        [] \<Rightarrow> (Inl sent_total, wire)
      | Inr sent # as' \<Rightarrow>
          if 0 < sent
          then send_loop frame (sent_total + sent) as'
                 (wire @ take sent (offered frame sent_total)) result
          else (Inr (True, TCP_NMEA_SESSION_ENDED_SEND_FAILED), wire)
      | Inl e # as' \<Rightarrow>
          if would_block e \<or> e = EINTR
          then send_loop frame sent_total as' wire result
          else (Inr (True, TCP_NMEA_SESSION_ENDED_SEND_FAILED), wire))"
  by pat_completeness auto
termination
  by (relation "measure (\<lambda>(_, _, as, _, _). length as)") auto

declare send_loop.simps [simp del]

text \<open>The loop as a whole: what it returns and what is then on the wire, once it has returned.\<close>

definition send_all ::
    "nmea_frame \<Rightarrow> nat \<Rightarrow> io_answer list \<Rightarrow> u8 list \<Rightarrow> tcp_nmea_session_result
       \<Rightarrow> (bool \<times> tcp_nmea_session_result \<times> u8 list) option" where
  "send_all frame sent_total as wire result =
     (case send_loop frame sent_total as wire result of
        (Inl _, _) \<Rightarrow> None
      | (Inr (failed, r), wire') \<Rightarrow> Some (failed, r, wire'))"

section \<open>The session machine\<close>

text \<open>
  Where a session stands in \<open>tcp_nmea_session_run\<close>: the operation it performs next. At \<open>At_send\<close>
  it is in \<open>send_all\<close>, with \<open>sess_sent\<close> bytes of the frame sent.
\<close>

datatype session_pc =
    At_sink_open
  | At_close_unregistered
  | At_atomic_inc
  | At_led_started
  | At_drain
  | At_take
  | At_send
  | At_drain_again
  | At_led_ended
  | At_atomic_dec
  | At_sink_close
  | At_close
  | At_return

record session =
  sess_fd :: int
  sess_name :: "string option"
  sess_pc :: session_pc
  sess_sink :: nmea_bridge_sink
  sess_frame :: nmea_frame
  sess_sent :: nat
  sess_result :: tcp_nmea_session_result
  sess_wire :: "u8 list"

text \<open>The state a session shares, and the descriptors closed so far.\<close>

record 'q session_env =
  env_bridge :: "'q bridge"
  env_led :: status_led
  active_sessions :: u32
  closed_fds :: "int list"

text \<open>The call of \<open>tcp_nmea_session_run\<close>; the local \<open>sink\<close> and \<open>frame\<close> are uninitialised.\<close>

definition tcp_nmea_session_call ::
    "nmea_bridge_sink \<Rightarrow> nmea_frame \<Rightarrow> int \<Rightarrow> string option \<Rightarrow> session" where
  "tcp_nmea_session_call sink frame fd name =
     \<lparr>sess_fd = fd, sess_name = name, sess_pc = At_sink_open, sess_sink = sink,
      sess_frame = frame, sess_sent = 0, sess_result = TCP_NMEA_SESSION_ENDED_PEER_CLOSED, sess_wire = []\<rparr>"

definition FRAME_WAIT :: k_timeout where
  "FRAME_WAIT = K_MSEC 250"

text \<open>\<open>if (drain_socket_rx(...)) break;\<close> with the next operation otherwise.\<close>

definition session_drain :: "io_answer list \<Rightarrow> session_pc \<Rightarrow> session \<Rightarrow> session" where
  "session_drain as next s =
     (case drain_socket_rx as (sess_result s) of
        None \<Rightarrow> s
      | Some (ended, result) \<Rightarrow>
          s\<lparr>sess_result := result, sess_pc := if ended then At_led_ended else next\<rparr>)"

definition session_take ::
    "'q msgq_ops \<Rightarrow> session \<Rightarrow> 'q session_env \<Rightarrow> session \<times> 'q session_env" where
  "session_take Q s env =
     (case nmea_bridge_sink_take Q (Some (sess_sink s)) False FRAME_WAIT (env_bridge env) of
        (Inl e, b) \<Rightarrow>
          (s\<lparr>sess_pc := if e = ENOTCONN then At_led_ended else At_drain\<rparr>,
           env\<lparr>env_bridge := b\<rparr>)
      | (Inr frame, b) \<Rightarrow>
          (s\<lparr>sess_frame := frame, sess_sent := 0, sess_pc := At_send\<rparr>, env\<lparr>env_bridge := b\<rparr>))"

text \<open>
  A part of \<open>send_all\<close>, as far as the answers go; with the end of the loop, the LED report that
  follows it. The step may end anywhere between two calls of \<open>zsock_send\<close>, with what these have
  accepted on the wire.
\<close>

definition session_send ::
    "app_config \<Rightarrow> int \<Rightarrow> io_answer list \<Rightarrow> session \<Rightarrow> 'q session_env \<Rightarrow> session \<times> 'q session_env" where
  "session_send c now as s env =
     (case send_loop (sess_frame s) (sess_sent s) as (sess_wire s) (sess_result s) of
        (Inl sent_total, wire) \<Rightarrow> (s\<lparr>sess_sent := sent_total, sess_wire := wire\<rparr>, env)
      | (Inr (failed, result), wire) \<Rightarrow>
          if failed
          then (s\<lparr>sess_result := result, sess_wire := wire, sess_pc := At_led_ended\<rparr>,
                env\<lparr>env_led := status_led_nmea_send_failed c now (env_led env)\<rparr>)
          else (s\<lparr>sess_result := result, sess_wire := wire, sess_pc := At_drain_again\<rparr>,
                env\<lparr>env_led := status_led_nmea_frame_forwarded c now (env_led env)\<rparr>))"

definition session_open ::
    "'q msgq_ops \<Rightarrow> session \<Rightarrow> 'q session_env \<Rightarrow> session \<times> 'q session_env" where
  "session_open Q s env =
     (case nmea_bridge_sink_open Q (Some (sess_sink s)) (sess_name s) (env_bridge env) of
        (Inr _, sink, b) \<Rightarrow>
          (s\<lparr>sess_sink := the sink, sess_pc := At_atomic_inc\<rparr>, env\<lparr>env_bridge := b\<rparr>)
      | (Inl _, sink, b) \<Rightarrow>
          (s\<lparr>sess_sink := the sink, sess_pc := At_close_unregistered\<rparr>, env\<lparr>env_bridge := b\<rparr>))"

definition session_sink_close ::
    "'q msgq_ops \<Rightarrow> session \<Rightarrow> 'q session_env \<Rightarrow> session \<times> 'q session_env" where
  "session_sink_close Q s env =
     (case nmea_bridge_sink_close Q (Some (sess_sink s)) (env_bridge env) of
        (sink, b) \<Rightarrow>
          (s\<lparr>sess_sink := the sink, sess_pc := At_close\<rparr>, env\<lparr>env_bridge := b\<rparr>))"

text \<open>One step of a session at time \<open>now\<close>; \<open>as\<close> answers the socket calls it makes.\<close>

definition session_step ::
    "app_config \<Rightarrow> 'q msgq_ops \<Rightarrow> int \<Rightarrow> io_answer list \<Rightarrow> session \<Rightarrow> 'q session_env
       \<Rightarrow> session \<times> 'q session_env" where
  "session_step c Q now as s env =
     (case sess_pc s of
        At_sink_open \<Rightarrow> session_open Q s env
      | At_close_unregistered \<Rightarrow>
          (s\<lparr>sess_result := TCP_NMEA_SESSION_ENDED_SINK_UNAVAILABLE, sess_pc := At_return\<rparr>,
           env\<lparr>closed_fds := closed_fds env @ [sess_fd s]\<rparr>)
      | At_atomic_inc \<Rightarrow>
          (s\<lparr>sess_pc := At_led_started\<rparr>, env\<lparr>active_sessions := active_sessions env + 1\<rparr>)
      | At_led_started \<Rightarrow>
          (s\<lparr>sess_pc := At_drain\<rparr>,
           env\<lparr>env_led := status_led_tcp_nmea_session_started c (env_led env)\<rparr>)
      | At_drain \<Rightarrow> (session_drain as At_take s, env)
      | At_take \<Rightarrow> session_take Q s env
      | At_send \<Rightarrow> session_send c now as s env
      | At_drain_again \<Rightarrow> (session_drain as At_drain s, env)
      | At_led_ended \<Rightarrow>
          (s\<lparr>sess_pc := At_atomic_dec\<rparr>,
           env\<lparr>env_led := status_led_tcp_nmea_session_ended c (env_led env)\<rparr>)
      | At_atomic_dec \<Rightarrow>
          (s\<lparr>sess_pc := At_sink_close\<rparr>, env\<lparr>active_sessions := active_sessions env - 1\<rparr>)
      | At_sink_close \<Rightarrow> session_sink_close Q s env
      | At_close \<Rightarrow>
          (s\<lparr>sess_pc := At_return\<rparr>, env\<lparr>closed_fds := closed_fds env @ [sess_fd s]\<rparr>)
      | At_return \<Rightarrow> (s, env))"

lemmas session_steps =
  session_step_def session_open_def session_drain_def session_take_def session_send_def
  session_sink_close_def

section \<open>Statistics\<close>

record tcp_nmea_session_stats =
  stat_active_sessions :: u32

definition tcp_nmea_session_get_stats ::
    "u32 \<Rightarrow> tcp_nmea_session_stats option \<Rightarrow> tcp_nmea_session_stats option" where
  "tcp_nmea_session_get_stats active stats =
     (if stats \<noteq> None then Some \<lparr>stat_active_sessions = active\<rparr> else None)"

end
