(* ===== verification/Session_Facts.thy ===== *)
theory Session_Facts
  imports Session
begin

text \<open>
  The facts of one session: its send loop as a transmit loop, how its receive loop ends, and
  what one step does to the session and to the state it shares.
\<close>

section \<open>Sending a frame\<close>

text \<open>A frame whose length field tells the length of its data, as \<open>make_frame\<close> builds them.\<close>

definition frame_exact :: "nmea_frame \<Rightarrow> bool" where
  "frame_exact f \<longleftrightarrow> length (data f) = unat (len f)"

definition frame_with :: "u8 list \<Rightarrow> nmea_frame" where
  "frame_with bytes = \<lparr>len = word_of_nat (length bytes), data = bytes\<rparr>"

lemma frame_with_exact: "length bytes < 65536 \<Longrightarrow> unat (len (frame_with bytes)) = length bytes"
  by (simp add: frame_with_def unat_of_nat)

lemma frame_exact_with: "frame_exact f \<Longrightarrow> f = frame_with (data f) \<and> length (data f) < 65536"
  using unat_u16_less [of "len f"] by (cases f) (simp add: frame_exact_def frame_with_def)

text \<open>The cases of the loop.\<close>

lemma send_all_unfold:
  "send_all frame sent_total as wire result =
     (if \<not> sent_total < unat (len frame) then Some (False, result, wire)
      else case as of
        [] \<Rightarrow> None
      | Inr sent # as' \<Rightarrow>
          if 0 < sent
          then send_all frame (sent_total + sent) as'
                 (wire @ take sent (offered frame sent_total)) result
          else Some (True, TCP_NMEA_SESSION_ENDED_SEND_FAILED, wire)
      | Inl e # as' \<Rightarrow>
          if would_block e \<or> e = EINTR
          then send_all frame sent_total as' wire result
          else Some (True, TCP_NMEA_SESSION_ENDED_SEND_FAILED, wire))"
  by (simp add: send_all_def send_loop.simps [of frame sent_total] split: list.split sum.split)

lemma send_loop_cases:
  obtains (blocked) n wire' where "send_loop f sent as wire result = (Inl n, wire')"
      "send_all f sent as wire result = None"
  | (ended) failed r wire' where "send_loop f sent as wire result = (Inr (failed, r), wire')"
      "send_all f sent as wire result = Some (failed, r, wire')"
proof -
  obtain out wire' where o: "send_loop f sent as wire result = (out, wire')" by fastforce
  then show ?thesis using blocked ended by (cases out) (auto simp: send_all_def)
qed

text \<open>The send loop on a buffer, with its result turned into the two components of the contract.\<close>

definition send_bytes ::
    "tcp_nmea_session_result \<Rightarrow> u8 list \<Rightarrow> nat \<Rightarrow> io_answer list \<Rightarrow> u8 list
       \<Rightarrow> ((bool \<times> tcp_nmea_session_result) \<times> u8 list) option" where
  "send_bytes result buf sent as wire =
     map_option (\<lambda>(failed, r, w). ((failed, r), w)) (send_all (frame_with buf) sent as wire result)"

interpretation session_transmit: transmit_loop
  "send_bytes result" "\<lambda>r. r = (False, result)" "\<lambda>e. would_block e \<or> e = EINTR"
  "\<lambda>buf. length buf < 65536" False for result
proof unfold_locales
  fix buf :: "u8 list" and sent :: nat and as wire e and n :: nat
  assume fit: "length buf < 65536"
  note len = frame_with_exact [OF fit]
  have off: "offered (frame_with buf) sent = drop sent buf"
    using len by (simp add: offered_def frame_with_def)
  show "\<exists>r. send_bytes result buf sent as wire = Some (r, wire) \<and> r = (False, result)"
    if "length buf \<le> sent"
    using that len by (simp add: send_bytes_def send_all_unfold [of _ sent])
  assume lt: "sent < length buf"
  then show "send_bytes result buf sent [] wire = None"
    using len by (simp add: send_bytes_def send_all_unfold [of _ sent])
  show "send_bytes result buf sent (Inr n # as) wire =
      send_bytes result buf (sent + n) as (wire @ take n (drop sent buf))" if "0 < n"
    using that lt len off by (simp add: send_bytes_def send_all_unfold [of _ sent])
  show "\<exists>r. send_bytes result buf sent (Inr 0 # as) wire = Some (r, wire) \<and>
      (False \<or> r \<noteq> (False, result))"
    using lt len by (simp add: send_bytes_def send_all_unfold [of _ sent])
  show "send_bytes result buf sent (Inl e # as) wire = send_bytes result buf sent as wire"
    if "would_block e \<or> e = EINTR"
    using that lt len by (simp add: send_bytes_def send_all_unfold [of _ sent])
  show "\<exists>r. send_bytes result buf sent (Inl e # as) wire = Some (r, wire) \<and> r \<noteq> (False, result)"
    if "\<not> (would_block e \<or> e = EINTR)"
    using that lt len by (simp add: send_bytes_def send_all_unfold [of _ sent])
qed

lemma send_loop_result:
  "send_loop f sent as wire result = (Inr (failed, r), wire') \<Longrightarrow>
     r = (if failed then TCP_NMEA_SESSION_ENDED_SEND_FAILED else result)"
proof (induction f sent as wire result rule: send_loop.induct)
  case (1 f sent as wire result)
  then show ?case
    by (subst (asm) (3) send_loop.simps) (auto split: if_splits list.splits sum.splits)
qed

lemma send_all_result:
  "send_all f sent as wire result = Some (failed, r, wire') \<Longrightarrow>
     r = (if failed then TCP_NMEA_SESSION_ENDED_SEND_FAILED else result)"
  by (cases rule: send_loop_cases [of f sent as wire result]) (auto dest: send_loop_result)

lemma send_loop_end:
  "fst (send_loop f sent as wire result) = Inr (failed, r) \<Longrightarrow>
     r = (if failed then TCP_NMEA_SESSION_ENDED_SEND_FAILED else result)"
  by (cases "send_loop f sent as wire result") (auto dest: send_loop_result)

text \<open>
  At every moment of the loop the wire holds what was on it before the frame and the first part
  of the frame, as long as \<open>sent_total\<close> says while the loop goes on.
\<close>

lemma send_loop_wire:
  assumes "frame_exact f"
  shows "send_loop f sent as (base @ take sent (data f)) result = (out, wire') \<Longrightarrow>
    case out of
      Inl n \<Rightarrow> n < length (data f) \<and> wire' = base @ take n (data f)
    | Inr (failed, r) \<Rightarrow>
        if failed then \<exists>k < length (data f). wire' = base @ take k (data f)
        else wire' = base @ data f"
proof (induction as arbitrary: sent)
  case Nil
  then show ?case using assms
    by (subst (asm) send_loop.simps) (auto simp: frame_exact_def split: if_splits)
next
  case (Cons a as)
  have len: "length (data f) = unat (len f)" using assms by (simp add: frame_exact_def)
  show ?case
  proof (cases "sent < unat (len f)")
    case False
    then show ?thesis using Cons.prems len by (subst (asm) send_loop.simps) auto
  next
    case True
    have "take sent (data f) @ take n (offered f sent) = take (sent + n) (data f)" for n
      using len by (simp add: offered_def take_add)
    then show ?thesis using Cons True len
      by (subst (asm) (2) send_loop.simps) (auto split: sum.splits if_splits)
  qed
qed

text \<open>A send that succeeded took the whole frame.\<close>

lemma send_all_wire:
  assumes "frame_exact f" and "send_all f 0 as wire result = Some (failed, r, wire')"
  shows "if failed then \<exists>k < length (data f). wire' = wire @ take k (data f)
         else wire' = wire @ data f"
proof -
  note f = frame_exact_with [OF assms(1)]
  have run: "send_bytes result (data f) 0 as wire = Some ((failed, r), wire')"
    using assms(2) f by (simp add: send_bytes_def)
  have "(failed, r) = (False, result) \<longleftrightarrow> \<not> failed"
    using send_all_result [OF assms(2)] by auto
  with session_transmit.run_wire [OF f [THEN conjunct2] run] show ?thesis
    by auto
qed

end
