(* ===== verification/Sessions.thy ===== *)
theory Sessions
  imports Session_Facts Uart_Facts Bridge_Properties
begin

text \<open>
  The data path of the program: the UART thread, the dispatcher and any number of session
  threads on one bridge. A run is a list of events, each one step of one thread, in any order:
  what the scheduler and the network may do. \<open>net_sessions\<close> has one place per thread that can
  run \<open>tcp_nmea_session_run\<close>: \<open>None\<close> while it does not, else its locals. Two events are calls that
  \<open>main\<close> makes: those that start the UART thread and the LED thread.
\<close>

section \<open>State and steps\<close>

record 'q net =
  net_rx :: uart_thread
  net_uart :: uart_nmea
  net_env :: "'q session_env"
  net_sessions :: "session option list"

datatype net_event =
    Uart_byte "u8 \<times> int"
  | Dispatch_frame
  | Session_call nat int "string option" nmea_bridge_sink nmea_frame
  | Session_step nat int "io_answer list"
  | Session_return nat
  | Client_connecting_report bool
  | Close_fds "int list"
  | Call_uart_start bool
  | Call_led_start bool bool int

definition net_uart_byte ::
    "app_config \<Rightarrow> 'q msgq_ops \<Rightarrow> u8 \<times> int \<Rightarrow> 'q net \<Rightarrow> 'q net" where
  "net_uart_byte c Q e n =
     (let w = uart_rx_byte c Q e
            \<lparr>uart_rx = net_rx n, uart_nmea_of = net_uart n,
             uart_bridge = env_bridge (net_env n), uart_led = env_led (net_env n)\<rparr>
      in n\<lparr>net_rx := uart_rx w, net_uart := uart_nmea_of w,
           net_env := (net_env n)\<lparr>env_bridge := uart_bridge w, env_led := uart_led w\<rparr>\<rparr>)"

definition net_session_step ::
    "app_config \<Rightarrow> 'q msgq_ops \<Rightarrow> nat \<Rightarrow> int \<Rightarrow> io_answer list \<Rightarrow> session \<Rightarrow> 'q net \<Rightarrow> 'q net" where
  "net_session_step c Q i now as s n =
     (let (s', env) = session_step c Q now as s (net_env n)
      in n\<lparr>net_env := env, net_sessions := (net_sessions n)[i := Some s']\<rparr>)"

text \<open>An event that is not possible in the state at hand changes nothing.\<close>

definition session_at :: "nat \<Rightarrow> 'q net \<Rightarrow> session option" where
  "session_at i n = (if i < length (net_sessions n) then net_sessions n ! i else None)"

fun net_step :: "app_config \<Rightarrow> 'q msgq_ops \<Rightarrow> net_event \<Rightarrow> 'q net \<Rightarrow> 'q net" where
  "net_step c Q (Uart_byte e) n = net_uart_byte c Q e n"
| "net_step c Q Dispatch_frame n =
     (case dispatcher_iteration Q (env_bridge (net_env n)) of
        None \<Rightarrow> n
      | Some b \<Rightarrow> n\<lparr>net_env := (net_env n)\<lparr>env_bridge := b\<rparr>\<rparr>)"
| "net_step c Q (Session_call i fd name sink frame) n =
     (if i < length (net_sessions n) \<and> net_sessions n ! i = None
      then n\<lparr>net_sessions := (net_sessions n)[i := Some (tcp_nmea_session_call sink frame fd name)]\<rparr>
      else n)"
| "net_step c Q (Session_step i now as) n =
     (case session_at i n of None \<Rightarrow> n | Some s \<Rightarrow> net_session_step c Q i now as s n)"
| "net_step c Q (Session_return i) n =
     (case session_at i n of
        None \<Rightarrow> n
      | Some s \<Rightarrow> if sess_pc s = At_return then n\<lparr>net_sessions := (net_sessions n)[i := None]\<rparr> else n)"
| "net_step c Q (Client_connecting_report on) n =
     n\<lparr>net_env := (net_env n)
         \<lparr>env_led := status_led_tcp_nmea_client_connecting c on (env_led (net_env n))\<rparr>\<rparr>"
| "net_step c Q (Close_fds fds) n =
     n\<lparr>net_env := (net_env n)\<lparr>closed_fds := closed_fds (net_env n) @ fds\<rparr>\<rparr>"
| "net_step c Q (Call_uart_start ready) n =
     n\<lparr>net_uart := snd (snd (uart_nmea_start ready (net_uart n)))\<rparr>"
| "net_step c Q (Call_led_start has_strip ready now) n =
     n\<lparr>net_env := (net_env n)
         \<lparr>env_led := snd (snd (status_led_start c has_strip ready now (env_led (net_env n))))\<rparr>\<rparr>"

text \<open>The program after \<open>nmea_bridge_init\<close>, with \<open>k\<close> threads that may run sessions.\<close>

definition net_start :: "app_config \<Rightarrow> 'q msgq_ops \<Rightarrow> 'q \<Rightarrow> u8 list \<Rightarrow> nat \<Rightarrow> 'q net" where
  "net_start c Q q0 garbage k =
     \<lparr>net_rx = uart_thread_start garbage, net_uart = uart_storage,
      net_env = \<lparr>env_bridge = nmea_bridge_init c Q (bridge_storage c Q q0),
                 env_led = status_led_storage, active_sessions = 0, closed_fds = []\<rparr>,
      net_sessions = replicate k None\<rparr>"

definition net_run ::
    "app_config \<Rightarrow> 'q msgq_ops \<Rightarrow> 'q \<Rightarrow> u8 list \<Rightarrow> nat \<Rightarrow> net_event list \<Rightarrow> 'q net" where
  "net_run c Q q0 garbage k es = fold (net_step c Q) es (net_start c Q q0 garbage k)"

text \<open>The bytes the serial port received in a run.\<close>

fun uart_input :: "net_event list \<Rightarrow> u8 list" where
  "uart_input [] = []"
| "uart_input (Uart_byte e # es) = fst e # uart_input es"
| "uart_input (_ # es) = uart_input es"

lemma uart_input_append: "uart_input (xs @ ys) = uart_input xs @ uart_input ys"
  by (induction xs rule: uart_input.induct) auto

section \<open>The bridge of a run is a run of the bridge\<close>

text \<open>The operations on the bridge an event performs.\<close>

fun bridge_events :: "app_config \<Rightarrow> net_event \<Rightarrow> 'q net \<Rightarrow> bridge_event list" where
  "bridge_events c (Uart_byte e) n =
     (let th = net_rx n
      in if \<not> dropping_overlong th \<and> line_len th < nmea_frame_max_len c \<and> fst e = newline
         then [Publish (Some ((line th)[line_len th := newline])) (Suc (line_len th))]
         else [])"
| "bridge_events c Dispatch_frame n = [Dispatch]"
| "bridge_events c (Session_step i now as) n =
     (case session_at i n of
        None \<Rightarrow> []
      | Some s \<Rightarrow>
          (case sess_pc s of
             At_sink_open \<Rightarrow> [Open (sess_name s)]
           | At_take \<Rightarrow> [Take (sink_id (sess_sink s)) FRAME_WAIT]
           | At_sink_close \<Rightarrow> [Close (sink_id (sess_sink s))]
           | _ \<Rightarrow> []))"
| "bridge_events c _ n = []"

lemma sink_eq: "\<lparr>sink_id = sink_id s\<rparr> = s"
  by (cases s) simp

lemma open_any_handle:
  "nmea_bridge_sink_open Q (Some s) name b = nmea_bridge_sink_open Q (Some s') name b"
  by (cases s; cases s') (simp add: nmea_bridge_sink_open_def split: option.split)

lemma traced_open_bridge:
  "bridge_of (traced_step c Q (Open name) t) =
     snd (snd (nmea_bridge_sink_open Q (Some s) name (bridge_of t)))"
  using open_any_handle [of Q s name "bridge_of t" "\<lparr>sink_id = - 1\<rparr>"]
  by (auto simp: nmea_bridge_sink_open_def split: option.split)

lemma traced_take_bridge:
  "bridge_of (traced_step c Q (Take (sink_id s) timeout) t) =
     snd (nmea_bridge_sink_take Q (Some s) False timeout (bridge_of t))"
  by (auto simp: sink_eq split: prod.split sum.split)

lemma traced_close_bridge:
  "bridge_of (traced_step c Q (Close (sink_id s)) t) =
     snd (nmea_bridge_sink_close Q (Some s) (bridge_of t))"
  by (simp add: sink_eq)

lemma traced_publish_bridge:
  "bridge_of (traced_step c Q (Publish ptr n) t) =
     snd (nmea_bridge_publish_frame c Q ptr n (bridge_of t))"
  by (auto split: prod.split sum.split)

lemma traced_dispatch_bridge:
  "bridge_of (traced_step c Q Dispatch t) =
     (case dispatcher_iteration Q (bridge_of t) of None \<Rightarrow> bridge_of t | Some b \<Rightarrow> b)"
  by (auto simp: dispatcher_iteration_def Let_def split: prod.split sum.split)

lemma session_step_bridge:
  "env_bridge (snd (session_step c Q now as s env)) =
     (case sess_pc s of
        At_sink_open \<Rightarrow> snd (snd (nmea_bridge_sink_open Q (Some (sess_sink s)) (sess_name s) (env_bridge env)))
      | At_take \<Rightarrow> snd (nmea_bridge_sink_take Q (Some (sess_sink s)) False FRAME_WAIT (env_bridge env))
      | At_sink_close \<Rightarrow> snd (nmea_bridge_sink_close Q (Some (sess_sink s)) (env_bridge env))
      | _ \<Rightarrow> env_bridge env)"
  by (auto simp: session_steps split: session_pc.split prod.split sum.split option.split)

lemma net_bridge_sim:
  assumes "bridge_of t = env_bridge (net_env n)"
  shows "bridge_of (fold (traced_step c Q) (bridge_events c ev n) t) =
         env_bridge (net_env (net_step c Q ev n))"
proof (cases ev)
  case (Uart_byte e)
  then show ?thesis using assms
    by (cases e) (auto simp: net_uart_byte_def uart_rx_byte_def count_stat_def Let_def
        uart_end_of_line_def traced_publish_bridge simp del: traced_step.simps)
next
  case Dispatch_frame
  then show ?thesis using assms
    by (simp add: traced_dispatch_bridge del: traced_step.simps split: option.split)
next
  case (Session_step i now as)
  show ?thesis
  proof (cases "session_at i n")
    case None
    then show ?thesis using assms Session_step by simp
  next
    case (Some s)
    have "env_bridge (net_env (net_step c Q ev n)) =
        env_bridge (snd (session_step c Q now as s (net_env n)))"
      using Some Session_step by (simp add: net_session_step_def split_beta Let_def)
    also have "\<dots> = bridge_of (fold (traced_step c Q) (bridge_events c ev n) t)"
      unfolding session_step_bridge using Some Session_step assms
      by (cases "sess_pc s")
        (simp_all add: traced_open_bridge [of c Q _ t "sess_sink s"] traced_take_bridge
          traced_close_bridge del: traced_step.simps)
    finally show ?thesis by (rule sym)
  qed
qed (use assms in \<open>auto split: option.split\<close>)

end
