(* ===== verification/Sessions_Facts.thy ===== *)
theory Sessions_Facts
  imports Sessions
begin

text \<open>
  The invariant of the data path: which session owns which sink, what each has taken and put on
  its socket, and what the counters say. Every event of \<open>Sessions\<close> keeps it.
\<close>

section \<open>Where a session stands\<close>

lemma drain_result:
  "drain_socket_rx as result = Some (ended, r) \<Longrightarrow>
     (ended \<longrightarrow> r \<in> {TCP_NMEA_SESSION_ENDED_PEER_CLOSED, TCP_NMEA_SESSION_ENDED_RX_FAILED}) \<and>
     (\<not> ended \<longrightarrow> r = result)"
  by (induction as result rule: drain_socket_rx.induct) (auto split: sum.splits if_splits)

text \<open>Between opening and closing its sink; counted in \<open>active_sessions\<close>; counted by the LED.\<close>

fun pc_holds :: "session_pc \<Rightarrow> bool" where
  "pc_holds At_sink_open = False"
| "pc_holds At_close_unregistered = False"
| "pc_holds At_close = False"
| "pc_holds At_return = False"
| "pc_holds _ = True"

fun pc_counted :: "session_pc \<Rightarrow> bool" where
  "pc_counted At_atomic_inc = False"
| "pc_counted At_sink_close = False"
| "pc_counted pc = pc_holds pc"

fun pc_led_counted :: "session_pc \<Rightarrow> bool" where
  "pc_led_counted At_led_started = False"
| "pc_led_counted At_atomic_dec = False"
| "pc_led_counted pc = pc_counted pc"

text \<open>Before the loop is left the result is still its initial value.\<close>

fun pc_running :: "session_pc \<Rightarrow> bool" where
  "pc_running At_led_ended = False"
| "pc_running At_atomic_dec = False"
| "pc_running At_sink_close = False"
| "pc_running pc = pc_holds pc"

fun pc_fresh :: "session_pc \<Rightarrow> bool" where
  "pc_fresh At_sink_open = True"
| "pc_fresh At_close_unregistered = True"
| "pc_fresh At_atomic_inc = True"
| "pc_fresh _ = False"

definition sink_index :: "session \<Rightarrow> nat" where
  "sink_index s = nat (sink_id (sess_sink s))"

text \<open>What is on the wire, given the frames taken so far.\<close>

definition payload :: "nmea_frame list \<Rightarrow> u8 list" where
  "payload fs = concat (map data fs)"

definition wire_ok :: "session \<Rightarrow> nmea_frame list \<Rightarrow> bool" where
  "wire_ok s tk \<longleftrightarrow>
     (pc_fresh (sess_pc s) \<longrightarrow> tk = []) \<and>
     (pc_running (sess_pc s) \<or> pc_fresh (sess_pc s) \<longrightarrow>
        sess_result s = TCP_NMEA_SESSION_ENDED_PEER_CLOSED) \<and>
     (if sess_pc s = At_send
      then \<exists>fs. tk = fs @ [sess_frame s] \<and>
        (sess_sent s = 0 \<or> sess_sent s < length (data (sess_frame s))) \<and>
        sess_wire s = payload fs @ take (sess_sent s) (data (sess_frame s))
      else if sess_result s = TCP_NMEA_SESSION_ENDED_SEND_FAILED
      then \<exists>fs f k. tk = fs @ [f] \<and> k < length (data f) \<and> sess_wire s = payload fs @ take k (data f)
      else sess_wire s = payload tk)"

definition owns_sink :: "app_config \<Rightarrow> 'q traced \<Rightarrow> session \<Rightarrow> nmea_frame list \<Rightarrow> bool" where
  "owns_sink c t s tk \<longleftrightarrow>
     0 \<le> sink_id (sess_sink s) \<and> sink_index s < nmea_sinks_max c \<and>
     slot_active (sinks (bridge_of t) ! sink_index s) \<and> delivered t (sink_index s) = tk"

definition session_ok :: "app_config \<Rightarrow> 'q traced \<Rightarrow> session \<Rightarrow> nmea_frame list \<Rightarrow> bool" where
  "session_ok c t s tk \<longleftrightarrow>
     subseq tk (accepted t) \<and> wire_ok s tk \<and> (pc_holds (sess_pc s) \<longrightarrow> owns_sink c t s tk)"

section \<open>How bridge events touch the slots\<close>

definition slot_flags :: "'q traced \<Rightarrow> bool list" where
  "slot_flags t = map slot_active (sinks (bridge_of t))"

lemma slot_flags_nth:
  "i < length (sinks (bridge_of t)) \<Longrightarrow> slot_flags t ! i = slot_active (sinks (bridge_of t) ! i)"
  by (simp add: slot_flags_def)

lemma flags_in_use: "length (filter slot_active (sinks (bridge_of t))) = length (filter id (slot_flags t))"
  by (simp add: slot_flags_def filter_map comp_def)

lemma accepted_grows: "\<exists>zs. accepted (traced_step c Q e t) = accepted t @ zs"
  by (cases e) (auto split: prod.split sum.split option.split)

lemma publish_slots:
  "slot_flags (traced_step c Q (Publish ptr n) t) = slot_flags t \<and>
   delivered (traced_step c Q (Publish ptr n) t) = delivered t"
  by (auto simp: slot_flags_def nmea_bridge_publish_frame_def Let_def
      split: prod.split sum.split option.split)

lemma dispatch_slots:
  "slot_flags (traced_step c Q Dispatch t) = slot_flags t \<and>
   delivered (traced_step c Q Dispatch t) = delivered t"
  by (auto simp: slot_flags_def dispatcher_iteration_def dispatch_sinks_eq Let_def comp_def
      split: prod.split sum.split option.split)

lemma flags_same: "slot_active sl = slot_active (xs ! i) \<Longrightarrow>
    map slot_active (xs[i := sl]) = map slot_active xs"
  by (cases "i < length xs") (simp_all add: map_update list_update_same_conv list_update_beyond)

lemma take_slots:
  "slot_flags (traced_step c Q (Take i timeout) t) = slot_flags t \<and>
   (j \<noteq> nat i \<longrightarrow> delivered (traced_step c Q (Take i timeout) t) j = delivered t j)"
  by (auto simp: slot_flags_def nmea_bridge_sink_take_def Let_def flags_same
      split: prod.split sum.split option.split)

lemma close_slots:
  assumes "0 \<le> i" and "nat i < length (sinks (bridge_of t))"
  shows "slot_flags (traced_step c Q (Close i) t) = (slot_flags t)[nat i := False] \<and>
         delivered (traced_step c Q (Close i) t) = delivered t"
  using assms
  by (auto simp: slot_flags_def nmea_bridge_sink_close_def Let_def map_update release_slot_def)

lemma open_slots:
  "(case first_free slot_active 0 (sinks (bridge_of t)) of
      None \<Rightarrow> traced_step c Q (Open name) t = t
    | Some k \<Rightarrow> k < length (slot_flags t) \<and> \<not> slot_flags t ! k \<and>
        slot_flags (traced_step c Q (Open name) t) = (slot_flags t)[k := True] \<and>
        delivered (traced_step c Q (Open name) t) = (delivered t)(k := []))"
proof (cases "first_free slot_active 0 (sinks (bridge_of t))")
  case None
  then show ?thesis by (simp add: nmea_bridge_sink_open_def)
next
  case (Some k)
  then show ?thesis using first_free_Some [OF Some]
    by (simp add: nmea_bridge_sink_open_def slot_flags_def map_update claim_slot_def)
qed

text \<open>A session is not disturbed by bridge events that neither take from nor close its sink.\<close>

definition leaves_alone :: "bridge_event \<Rightarrow> nat \<Rightarrow> bool" where
  "leaves_alone e j \<longleftrightarrow> (case e of Take i _ \<Rightarrow> nat i \<noteq> j | Close i \<Rightarrow> 0 \<le> i \<and> nat i \<noteq> j | _ \<Rightarrow> True)"

lemma alone_slot:
  assumes "leaves_alone e j" and "j < length (slot_flags t)" and "slot_flags t ! j"
  shows "slot_flags (traced_step c Q e t) ! j \<and> delivered (traced_step c Q e t) j = delivered t j"
proof (cases e)
  case (Close i)
  show ?thesis
  proof (cases "nat i < length (sinks (bridge_of t))")
    case True
    then show ?thesis using assms Close close_slots [of i t c Q] by (simp add: leaves_alone_def)
  next
    case False
    then have "int (length (sinks (bridge_of t))) \<le> i"
      using assms Close by (auto simp: leaves_alone_def)
    then show ?thesis using assms Close
      by (simp add: slot_flags_def nmea_bridge_sink_close_def)
  qed
next
  case (Open name)
  have "k \<noteq> j" if "first_free slot_active 0 (sinks (bridge_of t)) = Some k" for k
    using open_slots [where t = t and c = c and Q = Q and name = name] that assms(3) by auto
  then show ?thesis using open_slots [where t = t and c = c and Q = Q and name = name] assms Open
    by (auto split: option.splits simp del: traced_step.simps)
qed (use assms in \<open>simp_all add: publish_slots dispatch_slots take_slots leaves_alone_def
      del: traced_step.simps\<close>)

lemma accepted_fold_grows: "\<exists>zs. accepted (fold (traced_step c Q) es t) = accepted t @ zs"
proof (induction es arbitrary: t)
  case Nil
  then show ?case by simp
next
  case (Cons e es)
  then show ?case using accepted_grows [of c Q e t] Cons.IH [of "traced_step c Q e t"]
    by (auto simp del: traced_step.simps) (metis append_assoc)
qed

section \<open>One step of a session\<close>

lemmas step_unfold = session_steps split_beta

lemma ok_simps:
  "session_ok c t s tk \<Longrightarrow> pc_holds (sess_pc s) \<Longrightarrow> owns_sink c t s tk"
  "session_ok c t s tk \<Longrightarrow> wire_ok s tk"
  "session_ok c t s tk \<Longrightarrow> subseq tk (accepted t)"
  by (simp_all add: session_ok_def)

context bridge_on_queue
begin

lemma sinks_length: "tinv t \<Longrightarrow> length (sinks (bridge_of t)) = nmea_sinks_max c"
  by (rule bridge_wfD(1) [OF traced_invD(1)])

lemma session_ok_undisturbed:
  assumes "tinv t" and "session_ok c t s tk"
    and "pc_holds (sess_pc s) \<Longrightarrow> \<forall>e \<in> set es. leaves_alone e (sink_index s)"
  shows "session_ok c (fold (traced_step c Q) es t) s tk"
proof -
  let ?t = "fold (traced_step c Q) es t"
  have inv: "tinv ?t" using assms(1) by (rule runs.run_inv)
  obtain zs where acc: "accepted ?t = accepted t @ zs" using accepted_fold_grows by blast
  have "owns_sink c ?t s tk" if h: "pc_holds (sess_pc s)"
  proof -
    note own = ok_simps(1) [OF assms(2) h, unfolded owns_sink_def]
    have "(\<forall>e \<in> set es. leaves_alone e (sink_index s)) \<Longrightarrow> tinv t' \<Longrightarrow> slot_flags t' ! sink_index s \<Longrightarrow>
        slot_flags (fold (traced_step c Q) es t') ! sink_index s \<and>
        delivered (fold (traced_step c Q) es t') (sink_index s) = delivered t' (sink_index s)" for t'
    proof (induction es arbitrary: t')
      case Nil
      then show ?case by simp
    next
      case (Cons e es)
      have "sink_index s < length (slot_flags t')"
        using own sinks_length [OF Cons.prems(2)] by (simp add: slot_flags_def)
      then have "slot_flags (traced_step c Q e t') ! sink_index s \<and>
          delivered (traced_step c Q e t') (sink_index s) = delivered t' (sink_index s)"
        using Cons.prems by (intro alone_slot) auto
      then show ?case
        using Cons.IH [of "traced_step c Q e t'"] Cons.prems step_tinv [OF Cons.prems(2)] by simp
    qed
    from this [OF assms(3) [OF h] assms(1)] show ?thesis
      using own sinks_length [OF assms(1)] sinks_length [OF inv]
      by (simp add: owns_sink_def slot_flags_nth)
  qed
  then show ?thesis
    using assms(2) acc by (auto simp: session_ok_def intro: subseq_grow)
qed

lemma open_ok:
  assumes "tinv t" and "session_ok c t s tk" and "bridge_of t = env_bridge env"
    and "sess_pc s = At_sink_open"
  shows "session_ok c (traced_step c Q (Open (sess_name s)) t) (fst (session_step c Q now as s env)) []"
proof -
  have w: "sess_wire s = []" "sess_result s = TCP_NMEA_SESSION_ENDED_PEER_CLOSED"
    using ok_simps(2) [OF assms(2)] assms(4) by (auto simp: wire_ok_def payload_def)
  show ?thesis
  proof (cases "first_free slot_active 0 (sinks (env_bridge env))")
    case None
    then show ?thesis using assms(4) w
      by (simp add: step_unfold nmea_bridge_sink_open_def session_ok_def wire_ok_def payload_def)
  next
    case (Some k)
    then have "k < nmea_sinks_max c"
      using first_free_Some [OF Some] sinks_length [OF assms(1)] assms(3) by simp
    then show ?thesis using assms(3,4) w Some sinks_length [OF assms(1)]
      by (simp add: step_unfold nmea_bridge_sink_open_def session_ok_def wire_ok_def payload_def
          owns_sink_def sink_index_def claim_slot_def)
  qed
qed

lemma take_ok:
  assumes "tinv t" and "session_ok c t s tk" and "bridge_of t = env_bridge env"
    and "sess_pc s = At_take"
  shows "\<exists>tk'. session_ok c (traced_step c Q (Take (sink_id (sess_sink s)) FRAME_WAIT) t)
           (fst (session_step c Q now as s env)) tk'"
proof -
  let ?t = "traced_step c Q (Take (sink_id (sess_sink s)) FRAME_WAIT) t"
  have own: "0 \<le> sink_id (sess_sink s)" "sink_index s < nmea_sinks_max c"
      "slot_active (sinks (bridge_of t) ! sink_index s)" "delivered t (sink_index s) = tk"
    using ok_simps(1) [OF assms(2)] assms(4) by (simp_all add: owns_sink_def)
  have w: "sess_wire s = payload tk" "sess_result s = TCP_NMEA_SESSION_ENDED_PEER_CLOSED"
    using ok_simps(2) [OF assms(2)] assms(4) by (auto simp: wire_ok_def)
  have acc: "subseq (delivered ?t (sink_index s)) (accepted ?t)"
    using traced_invD(3) [OF take_inv [OF assms(1)]] .
  from traced_invD(1) [OF assms(1)] own(1) sink_index_def [of s, symmetric] own(2,3)
  show ?thesis
  proof (cases rule: take_active_cases [where t = FRAME_WAIT])
    case (empty e sl)
    then have "session_ok c ?t (fst (session_step c Q now as s env)) tk"
      using assms own w acc sinks_length [OF assms(1)]
      by (auto simp: step_unfold session_ok_def owns_sink_def wire_ok_def sink_eq sink_index_def
          nth_list_update)
    then show ?thesis by (rule exI)
  next
    case (frame f sl)
    then have "session_ok c ?t (fst (session_step c Q now as s env)) (tk @ [f])"
      using assms own w acc sinks_length [OF assms(1)]
      by (auto simp: step_unfold session_ok_def owns_sink_def wire_ok_def sink_eq sink_index_def)
    then show ?thesis by (rule exI)
  qed
qed

lemma close_ok:
  assumes "session_ok c t s tk" and "sess_pc s = At_sink_close"
  shows "session_ok c (traced_step c Q (Close (sink_id (sess_sink s))) t)
           (fst (session_step c Q now as s env)) tk"
  using assms
  by (auto simp: step_unfold session_ok_def wire_ok_def nmea_bridge_sink_close_def)

lemma other_ok:
  assumes "session_ok c t s tk" and "\<forall>f \<in> set (accepted t). frame_exact f"
    and "sess_pc s \<notin> {At_sink_open, At_take, At_sink_close}"
  shows "session_ok c t (fst (session_step c Q now as s env)) tk"
proof (cases "sess_pc s")
  case At_send
  let ?d = "data (sess_frame s)"
  from At_send obtain fs where fs: "tk = fs @ [sess_frame s]"
      "sess_wire s = payload fs @ take (sess_sent s) ?d"
      "sess_result s = TCP_NMEA_SESSION_ENDED_PEER_CLOSED"
    using assms(1) by (auto simp: session_ok_def wire_ok_def)
  have "sess_frame s \<in> set (accepted t)"
    using subseq_in_set [OF ok_simps(3) [OF assms(1)], of "sess_frame s"] fs(1) by simp
  then have ex: "frame_exact (sess_frame s)" using assms(2) by blast
  note wire = send_loop_wire [OF ex, where base = "payload fs" and sent = "sess_sent s", folded fs(2)]
  show ?thesis
  proof (cases rule: send_loop_cases [of "sess_frame s" "sess_sent s" as "sess_wire s" "sess_result s"])
    case (blocked n wire')
    then show ?thesis using assms(1) At_send fs wire [OF blocked(1)]
      by (simp add: step_unfold session_ok_def owns_sink_def sink_index_def wire_ok_def)
  next
    case (ended failed r wire')
    note sw = wire [OF ended(1)] and sr = send_loop_result [OF ended(1)]
    show ?thesis
    proof (cases failed)
      case True
      then obtain k where "k < length ?d" "wire' = payload fs @ take k ?d" using sw by auto
      then show ?thesis using assms(1) At_send ended(1) True sr fs(1)
        by (auto simp: step_unfold session_ok_def owns_sink_def sink_index_def wire_ok_def)
    next
      case False
      then have "wire' = payload tk" using sw fs(1) by (simp add: payload_def)
      then show ?thesis using assms(1) At_send ended(1) False sr fs(1,3)
        by (auto simp: step_unfold session_ok_def owns_sink_def sink_index_def wire_ok_def)
    qed
  qed
qed (use assms in \<open>auto simp: step_unfold session_ok_def owns_sink_def sink_index_def wire_ok_def
      dest!: drain_result split: option.splits prod.splits if_splits\<close>)

end

end
