(* ===== verification/Sessions_Inv.thy ===== *)
theory Sessions_Inv
  imports Sessions_Facts
begin

text \<open>The invariant of the whole data path and its preservation by every event.\<close>

section \<open>Counting sessions\<close>

definition session_count :: "(session_pc \<Rightarrow> bool) \<Rightarrow> session option list \<Rightarrow> nat" where
  "session_count P ss = length (filter (\<lambda>x. case x of None \<Rightarrow> False | Some s \<Rightarrow> P (sess_pc s)) ss)"

lemma count_step:
  assumes "i < length ss" and "ss ! i = Some s"
  shows "session_count P (ss[i := Some s']) + (if P (sess_pc s) then 1 else 0) =
         session_count P ss + (if P (sess_pc s') then 1 else 0)"
  using count_update [OF assms(1), of "\<lambda>x. case x of None \<Rightarrow> False | Some s \<Rightarrow> P (sess_pc s)" "Some s'"]
    assms(2) by (simp add: session_count_def)

lemma count_call:
  assumes "i < length ss" and "ss ! i = None" and "\<not> P (sess_pc s)"
  shows "session_count P (ss[i := Some s]) = session_count P ss"
  using count_update [OF assms(1), of "\<lambda>x. case x of None \<Rightarrow> False | Some s \<Rightarrow> P (sess_pc s)" "Some s"]
    assms(2,3) by (simp add: session_count_def)

lemma count_return:
  assumes "i < length ss" and "ss ! i = Some s" and "\<not> P (sess_pc s)"
  shows "session_count P (ss[i := None]) = session_count P ss"
  using count_update [OF assms(1), of "\<lambda>x. case x of None \<Rightarrow> False | Some s \<Rightarrow> P (sess_pc s)" None]
    assms(2,3) by (simp add: session_count_def)

lemma count_le: "session_count P ss \<le> length ss"
  by (simp add: session_count_def)

lemma count_le_live: "session_count P ss \<le> length (filter (\<lambda>x. x \<noteq> None) ss)"
  unfolding session_count_def by (induction ss) (auto split: option.splits)

lemma count_mono:
  "(\<And>pc. P pc \<Longrightarrow> P' pc) \<Longrightarrow> session_count P ss \<le> session_count P' ss"
  unfolding session_count_def by (induction ss) (auto split: option.splits)

section \<open>The counters\<close>

definition led_sessions :: "status_led \<Rightarrow> nat" where
  "led_sessions l = unat (active_tcp_nmea_sessions (status_led_state l))"

text \<open>
  The slots in use, the atomic counter and the LED's count are the numbers of sessions at the
  corresponding points of \<open>tcp_nmea_session_run\<close>.
\<close>

definition net_counts :: "app_config \<Rightarrow> 'q net \<Rightarrow> bool" where
  "net_counts c n \<longleftrightarrow>
     length (filter slot_active (sinks (env_bridge (net_env n)))) =
       session_count pc_holds (net_sessions n) \<and>
     active_sessions (net_env n) = word_of_nat (session_count pc_counted (net_sessions n)) \<and>
     (status_led_enable c \<longrightarrow>
        led_sessions (env_led (net_env n)) = session_count pc_led_counted (net_sessions n))"

lemma led_started_count:
  "status_led_enable c \<Longrightarrow> led_sessions l < 65535 \<Longrightarrow>
     led_sessions (status_led_tcp_nmea_session_started c l) = Suc (led_sessions l)"
  by (simp add: led_sessions_def led_reports policy_ops unat_Suc_no_wrap)

lemma led_ended_count:
  "status_led_enable c \<Longrightarrow>
     led_sessions (status_led_tcp_nmea_session_ended c l) = led_sessions l - 1"
  by (auto simp: led_sessions_def led_reports policy_ops unat_pred word_gt_0_unat)

lemma led_other_counts [simp]:
  "led_sessions (status_led_nmea_frame_received c now l) = led_sessions l"
  "led_sessions (status_led_nmea_frame_forwarded c now l) = led_sessions l"
  "led_sessions (status_led_nmea_send_failed c now l) = led_sessions l"
  "led_sessions (status_led_tcp_nmea_client_connecting c on l) = led_sessions l"
  by (simp_all add: led_sessions_def led_reports policy_ops)

text \<open>What one step of a session does to the two counters, by the points it passes.\<close>

lemma step_active:
  "active_sessions (snd (session_step c Q now as s env)) +
     (if pc_counted (sess_pc s) then 1 else 0) =
   active_sessions env + (if pc_counted (sess_pc (fst (session_step c Q now as s env))) then 1 else 0)"
  by (cases "sess_pc s") (auto simp: step_unfold split: option.split prod.split sum.split)

lemma step_led:
  assumes "status_led_enable c" and "sess_pc s = At_led_started \<Longrightarrow> led_sessions (env_led env) < 65535"
    and "pc_led_counted (sess_pc s) \<Longrightarrow> 0 < led_sessions (env_led env)"
  shows "led_sessions (env_led (snd (session_step c Q now as s env))) +
     (if pc_led_counted (sess_pc s) then 1 else 0) =
   led_sessions (env_led env) +
     (if pc_led_counted (sess_pc (fst (session_step c Q now as s env))) then 1 else 0)"
  using assms
  by (cases "sess_pc s") (auto simp: step_unfold led_started_count led_ended_count
      split: option.split prod.split sum.split)

section \<open>The invariant\<close>

text \<open>
  The input falls into a part that is done with, of which \<open>pub\<close> has been published, and the
  bytes collected since.
\<close>

definition uart_holds :: "app_config \<Rightarrow> u8 list \<Rightarrow> u8 list \<Rightarrow> uart_thread \<Rightarrow> bool" where
  "uart_holds c pub inp th \<longleftrightarrow>
     (\<exists>past acc. inp = past @ acc \<and> subseq pub past \<and>
        (skipping c th \<or> holding c acc th \<and> newline \<notin> set acc))"

text \<open>What the bridge accepts in a run: lines of the serial input, as exact frames.\<close>

definition line_of :: "app_config \<Rightarrow> u8 list \<Rightarrow> nmea_frame \<Rightarrow> bool" where
  "line_of c inp f \<longleftrightarrow> frame_exact f \<and> is_line (data f) \<and>
     length (data f) \<le> nmea_frame_max_len c \<and> sublist (data f) inp"

definition sinks_distinct :: "'q net \<Rightarrow> bool" where
  "sinks_distinct n \<longleftrightarrow>
     (\<forall>i j s s'. i \<noteq> j \<longrightarrow> session_at i n = Some s \<longrightarrow> session_at j n = Some s' \<longrightarrow>
        pc_holds (sess_pc s) \<longrightarrow> pc_holds (sess_pc s') \<longrightarrow> sink_index s \<noteq> sink_index s')"

definition sessions_ok :: "app_config \<Rightarrow> 'q traced \<Rightarrow> 'q net \<Rightarrow> bool" where
  "sessions_ok c t n \<longleftrightarrow> (\<forall>i s. session_at i n = Some s \<longrightarrow> (\<exists>tk. session_ok c t s tk))"

definition net_inv ::
    "app_config \<Rightarrow> ('q \<Rightarrow> nmea_frame list) \<Rightarrow> ('q \<Rightarrow> nat) \<Rightarrow> u8 list \<Rightarrow> 'q net \<Rightarrow> 'q traced \<Rightarrow> bool" where
  "net_inv c items depth inp n t \<longleftrightarrow>
     bridge_of t = env_bridge (net_env n) \<and> traced_inv c items depth t \<and>
     (\<forall>f \<in> set (accepted t). line_of c inp f) \<and>
     uart_holds c (payload (accepted t)) inp (net_rx n) \<and>
     sessions_ok c t n \<and> sinks_distinct n \<and> net_counts c n"

lemma net_invD:
  assumes "net_inv c items depth inp n t"
  shows "bridge_of t = env_bridge (net_env n)" and "traced_inv c items depth t"
    and "\<forall>f \<in> set (accepted t). line_of c inp f" and "uart_holds c (payload (accepted t)) inp (net_rx n)"
    and "sessions_ok c t n" and "sinks_distinct n" and "net_counts c n"
  using assms by (simp_all add: net_inv_def)

text \<open>The history of the bridge along a run.\<close>

fun net_trace :: "app_config \<Rightarrow> 'q msgq_ops \<Rightarrow> net_event list \<Rightarrow> 'q net \<Rightarrow> bridge_event list" where
  "net_trace c Q [] n = []"
| "net_trace c Q (ev # evs) n = bridge_events c ev n @ net_trace c Q evs (net_step c Q ev n)"

section \<open>The UART thread and the dispatcher\<close>

lemma session_at_same:
  "net_sessions n' = net_sessions n \<Longrightarrow> session_at i n' = session_at i n"
  by (simp add: session_at_def)

lemma line_of_grow: "line_of c inp f \<Longrightarrow> line_of c (inp @ xs) f"
  by (auto simp: line_of_def sublist_appendI intro: sublist_order.order.trans)

lemma byte_events:
  assumes "holding c acc (net_rx n)"
  shows "bridge_events c (Uart_byte e) n =
    (if length acc < nmea_frame_max_len c \<and> fst e = newline
     then [Publish (Some ((line (net_rx n))[length acc := newline])) (Suc (length acc))] else [])"
  using assms by (simp add: holding_def Let_def)

text \<open>The frame a complete line is published as.\<close>

lemma line_frame:
  assumes "holding c acc (net_rx n)" and "length acc < nmea_frame_max_len c" and "config_ok c"
  shows "data (make_frame ((line (net_rx n))[length acc := newline]) (Suc (length acc))) =
           acc @ [newline] \<and>
         unat (len (make_frame ((line (net_rx n))[length acc := newline]) (Suc (length acc)))) =
           Suc (length acc)"
proof -
  have "Suc (length acc) \<le> 512" using assms(2) config_okD(4) [OF assms(3)] by simp
  note mf = make_frame_exact [OF this, of "(line (net_rx n))[length acc := newline]"]
  have "take (Suc (length acc)) ((line (net_rx n))[length acc := newline]) = acc @ [newline]"
    using assms(1,2) by (simp add: holding_def take_Suc_conv_app_nth)
  then show ?thesis using mf [THEN conjunct1, THEN arg_cong, of data] mf [THEN conjunct2]
    by (simp only: nmea_frame.simps)
qed

lemma byte_rx:
  assumes "uart_holds c (payload (accepted t)) inp (net_rx n)" and "config_ok c"
    and "t' = fold (traced_step c Q) (bridge_events c (Uart_byte e) n) t"
  shows "uart_holds c (payload (accepted t')) (inp @ [fst e]) (net_rx (net_step c Q (Uart_byte e) n))"
proof -
  obtain ch now where e: "e = (ch, now)" by (cases e)
  let ?w = "\<lparr>uart_rx = net_rx n, uart_nmea_of = net_uart n,
        uart_bridge = env_bridge (net_env n), uart_led = env_led (net_env n)\<rparr>"
  have rx: "net_rx (net_step c Q (Uart_byte e) n) = uart_rx (uart_rx_byte c Q (ch, now) ?w)"
    by (simp add: net_uart_byte_def Let_def e)
  obtain past acc where io: "inp = past @ acc" "subseq (payload (accepted t)) past"
      "skipping c (net_rx n) \<or> holding c acc (net_rx n) \<and> newline \<notin> set acc"
    using assms(1) by (auto simp: uart_holds_def)
  have all: "inp @ [fst e] = past @ (acc @ [ch])" "inp @ [fst e] = (past @ acc @ [ch]) @ []"
    using io(1) e by simp_all
  have sub: "subseq (payload (accepted t)) (past @ acc @ [ch])" using io(2) by (rule subseq_grow)
  from io(3) show ?thesis
  proof (elim disjE conjE)
    assume sk: "skipping c (net_rx n)"
    then have t': "t' = t" using assms(3) by (simp add: skipping_def)
    show ?thesis
    proof (cases "ch = newline")
      case True
      then show ?thesis using byte_skip [of c ?w ch Q now] sk rx sub all(2)
        unfolding uart_holds_def t' by (intro exI conjI) (assumption | simp)+
    next
      case False
      then show ?thesis using byte_skip [of c ?w ch Q now] sk rx io(2) all(1)
        unfolding uart_holds_def t' by (intro exI conjI) (assumption | simp)+
    qed
  next
    assume h: "holding c acc (net_rx n)" and nl: "newline \<notin> set acc"
    then have h': "holding c acc (uart_rx ?w)" by simp
    note ev = byte_events [OF h, of e]
    from h' refl [of "uart_rx_byte c Q (ch, now) ?w"] show ?thesis
    proof (cases rule: hold_cases)
      case overflow
      then have t': "t' = t" using assms(3) ev by simp
      show ?thesis using overflow rx io(2) all(1)
        unfolding uart_holds_def t' by (intro exI conjI) (assumption | simp)+
    next
      case collect
      then have t': "t' = t" using assms(3) ev e by simp
      show ?thesis using collect rx io(2) all(1) nl
        unfolding uart_holds_def t' by (intro exI conjI) (assumption | simp)+
    next
      case line
      have "accepted t' = accepted t @
          [make_frame ((line (net_rx n))[length acc := newline]) (Suc (length acc))]"
        unfolding assms(3) ev using line e
        by (simp add: nmea_bridge_publish_frame_def Let_def split_beta)
      then have "payload (accepted t') = payload (accepted t) @ acc @ [newline]"
        using line_frame [OF h line(1) assms(2)] by (simp add: payload_def)
      then have "subseq (payload (accepted t')) (past @ acc @ [ch])"
        using line io(2) by (simp add: list_emb_append_mono)
      then show ?thesis using line rx all(2)
        unfolding uart_holds_def by (intro exI conjI) (assumption | simp)+
    qed
  qed
qed

lemma byte_publishes:
  assumes "uart_holds c pub inp (net_rx n)" and "config_ok c"
    and "Publish ptr m \<in> set (bridge_events c (Uart_byte e) n)"
  shows "line_of c (inp @ [fst e]) (make_frame (the ptr) m)"
proof -
  obtain past acc where io: "inp = past @ acc"
      "skipping c (net_rx n) \<or> holding c acc (net_rx n) \<and> newline \<notin> set acc"
    using assms(1) by (auto simp: uart_holds_def)
  have "\<not> skipping c (net_rx n)" using assms(3) by (auto simp: skipping_def Let_def)
  then have h: "holding c acc (net_rx n)" and nl: "newline \<notin> set acc" using io(2) by simp_all
  then have p: "length acc < nmea_frame_max_len c" "fst e = newline"
      "ptr = Some ((line (net_rx n))[length acc := newline])" "m = Suc (length acc)"
    using assms(3) byte_events [OF h, of e] by (auto split: if_splits)
  have "suffix (acc @ [newline]) (inp @ [fst e])" using io(1) p(2) by (simp add: suffix_def)
  then show ?thesis using line_frame [OF h p(1) assms(2)] p nl
    by (simp add: line_of_def frame_exact_def is_line_def suffix_imp_sublist)
qed

lemma accepted_after:
  "f \<in> set (accepted (traced_step c Q ev t)) \<Longrightarrow> f \<in> set (accepted t) \<or>
     (\<exists>ptr m. ev = Publish ptr m \<and> f = make_frame (the ptr) m)"
  by (cases ev) (auto split: prod.splits sum.splits option.splits)

lemma dispatch_accepted: "accepted (traced_step c Q Dispatch t) = accepted t"
  by (auto split: prod.split sum.split option.split)

lemma byte_events_short:
  "bridge_events c (Uart_byte e) n = [] \<or>
   (\<exists>ptr m. bridge_events c (Uart_byte e) n = [Publish ptr m])"
  by (simp add: Let_def)

section \<open>Preservation\<close>

context bridge_on_queue
begin

abbreviation ninv :: "u8 list \<Rightarrow> 'q net \<Rightarrow> 'q traced \<Rightarrow> bool" where
  "ninv inp n t \<equiv> net_inv c items depth inp n t"

lemma slots_in_use:
  assumes "ninv inp n t"
  shows "length (filter id (slot_flags t)) = session_count pc_holds (net_sessions n)"
  using net_invD(1,7) [OF assms] by (simp add: net_counts_def flip: flags_in_use)

text \<open>An event after which every session is as before, and whose bridge events leave all alone.\<close>

lemma quiet_inv:
  assumes "ninv inp n t" and "n' = net_step c Q ev n" and "es = bridge_events c ev n"
    and "\<forall>e \<in> set es. \<forall>j. leaves_alone e j" and "slot_flags (fold (traced_step c Q) es t) = slot_flags t"
    and "net_sessions n' = net_sessions n"
    and "active_sessions (net_env n') = active_sessions (net_env n)"
    and "led_sessions (env_led (net_env n')) = led_sessions (env_led (net_env n))"
    and "uart_holds c (payload (accepted (fold (traced_step c Q) es t))) inp' (net_rx n')"
    and "\<forall>f \<in> set (accepted (fold (traced_step c Q) es t)). line_of c inp' f"
  shows "ninv inp' n' (fold (traced_step c Q) es t)"
proof -
  let ?t = "fold (traced_step c Q) es t"
  have sim: "bridge_of ?t = env_bridge (net_env n')"
    unfolding assms(2,3) by (rule net_bridge_sim [OF net_invD(1) [OF assms(1)]])
  have at: "session_at i n' = session_at i n" for i
    by (rule session_at_same [OF assms(6)])
  have "sessions_ok c ?t n'"
    using net_invD(5) [OF assms(1)] session_ok_undisturbed [OF net_invD(2) [OF assms(1)]] assms(4)
    unfolding sessions_ok_def at by blast
  moreover have "sinks_distinct n'"
    using net_invD(6) [OF assms(1)] unfolding sinks_distinct_def at .
  moreover have "net_counts c n'"
    using net_invD(7) [OF assms(1)] slots_in_use [OF assms(1)] flags_in_use [of ?t] assms(5-8) sim
    by (simp add: net_counts_def)
  moreover have "tinv ?t" using net_invD(2) [OF assms(1)] by (rule runs.run_inv)
  ultimately show ?thesis using sim assms(9,10) by (simp add: net_inv_def)
qed

lemma uart_ninv:
  assumes "ninv inp n t"
  shows "ninv (inp @ [fst e]) (net_step c Q (Uart_byte e) n)
           (fold (traced_step c Q) (bridge_events c (Uart_byte e) n) t)"
proof (rule quiet_inv [OF assms refl refl])
  show "\<forall>ev \<in> set (bridge_events c (Uart_byte e) n). \<forall>j. leaves_alone ev j"
    by (simp add: Let_def leaves_alone_def)
  show "slot_flags (fold (traced_step c Q) (bridge_events c (Uart_byte e) n) t) = slot_flags t"
    using byte_events_short [of c e n]
    by (auto simp: publish_slots simp del: traced_step.simps bridge_events.simps)
  show "net_sessions (net_step c Q (Uart_byte e) n) = net_sessions n"
    and "active_sessions (net_env (net_step c Q (Uart_byte e) n)) = active_sessions (net_env n)"
    by (simp_all add: net_uart_byte_def Let_def)
  show "led_sessions (env_led (net_env (net_step c Q (Uart_byte e) n))) =
      led_sessions (env_led (net_env n))"
    by (cases e) (simp add: net_uart_byte_def uart_rx_byte_def Let_def count_stat_def uart_end_of_line_def)
  show "uart_holds c (payload (accepted (fold (traced_step c Q) (bridge_events c (Uart_byte e) n) t)))
      (inp @ [fst e]) (net_rx (net_step c Q (Uart_byte e) n))"
    by (rule byte_rx [OF net_invD(4) [OF assms] cfg refl])
  show "\<forall>f \<in> set (accepted (fold (traced_step c Q) (bridge_events c (Uart_byte e) n) t)).
      line_of c (inp @ [fst e]) f"
  proof
    fix f assume f: "f \<in> set (accepted (fold (traced_step c Q) (bridge_events c (Uart_byte e) n) t))"
    have old: "line_of c (inp @ [fst e]) f" if "f \<in> set (accepted t)"
      using net_invD(3) [OF assms] that by (simp add: line_of_grow)
    from byte_events_short [of c e n] show "line_of c (inp @ [fst e]) f"
    proof (elim disjE exE)
      assume "bridge_events c (Uart_byte e) n = []"
      then show ?thesis using f old by simp
    next
      fix ptr m assume p: "bridge_events c (Uart_byte e) n = [Publish ptr m]"
      then consider "f \<in> set (accepted t)" | "f = make_frame (the ptr) m"
        using f accepted_after [of f c Q "Publish ptr m" t] by (auto simp del: traced_step.simps)
      then show ?thesis
        using old byte_publishes [OF net_invD(4) [OF assms] cfg, of ptr m e] p by cases simp_all
    qed
  qed
qed

lemma dispatch_ninv:
  assumes "ninv inp n t"
  shows "ninv inp (net_step c Q Dispatch_frame n)
           (fold (traced_step c Q) (bridge_events c Dispatch_frame n) t)"
proof (rule quiet_inv [OF assms refl refl])
  show "\<forall>f \<in> set (accepted (fold (traced_step c Q) (bridge_events c Dispatch_frame n) t)).
      line_of c inp f"
    using net_invD(3) [OF assms] accepted_after [of _ c Q Dispatch t]
    by (auto simp del: traced_step.simps)
qed (use net_invD(4) [OF assms] in \<open>auto simp: leaves_alone_def dispatch_slots dispatch_accepted
      simp del: traced_step.simps split: option.split\<close>)

lemma report_ninv:
  assumes "ninv inp n t"
  shows "ninv inp (net_step c Q (Client_connecting_report on) n) t"
proof -
  have "ninv inp (net_step c Q (Client_connecting_report on) n) (fold (traced_step c Q) [] t)"
    by (rule quiet_inv [OF assms refl]) (use net_invD(3,4) [OF assms] in simp_all)
  then show ?thesis by simp
qed

lemma close_fds_ninv:
  assumes "ninv inp n t"
  shows "ninv inp (net_step c Q (Close_fds fds) n) t"
proof -
  have "ninv inp (net_step c Q (Close_fds fds) n) (fold (traced_step c Q) [] t)"
    by (rule quiet_inv [OF assms refl]) (use net_invD(3,4) [OF assms] in simp_all)
  then show ?thesis by simp
qed

lemma start_call_ninv:
  assumes "ninv inp n t"
  shows "ninv inp (net_step c Q (Call_uart_start ready) n) t"
    and "ninv inp (net_step c Q (Call_led_start has_strip ready now) n) t"
proof -
  have "ninv inp (net_step c Q (Call_uart_start ready) n) (fold (traced_step c Q) [] t)"
    by (rule quiet_inv [OF assms refl]) (use net_invD(3,4) [OF assms] in simp_all)
  then show "ninv inp (net_step c Q (Call_uart_start ready) n) t" by simp
  have "ninv inp (net_step c Q (Call_led_start has_strip ready now) n) (fold (traced_step c Q) [] t)"
    by (rule quiet_inv [OF assms refl]) (use net_invD(3,4) [OF assms] in \<open>simp_all add: led_sessions_def\<close>)
  then show "ninv inp (net_step c Q (Call_led_start has_strip ready now) n) t" by simp
qed

text \<open>A step of session \<open>i\<close>: the session itself, the others, the ownership and the counters.\<close>

lemma own_step_ok:
  assumes "ninv inp n t" and "session_at i n = Some s"
  shows "\<exists>tk. session_ok c (fold (traced_step c Q) (bridge_events c (Session_step i now as) n) t)
           (fst (session_step c Q now as s (net_env n))) tk"
proof -
  obtain tk where tk: "session_ok c t s tk"
    using net_invD(5) [OF assms(1)] assms(2) by (auto simp: sessions_ok_def)
  have exact: "\<forall>f \<in> set (accepted t). frame_exact f"
    using net_invD(3) [OF assms(1)] by (simp add: line_of_def)
  note inv = net_invD(2) [OF assms(1)] and sim = net_invD(1) [OF assms(1)]
  consider "sess_pc s = At_sink_open" | "sess_pc s = At_take" | "sess_pc s = At_sink_close"
    | "sess_pc s \<notin> {At_sink_open, At_take, At_sink_close}" by blast
  then show ?thesis
  proof cases
    case 1
    then have "bridge_events c (Session_step i now as) n = [Open (sess_name s)]"
      using assms(2) by simp
    then show ?thesis using open_ok [OF inv tk sim 1, of now as] by (auto simp del: traced_step.simps)
  next
    case 2
    then have "bridge_events c (Session_step i now as) n = [Take (sink_id (sess_sink s)) FRAME_WAIT]"
      using assms(2) by simp
    then show ?thesis using take_ok [OF inv tk sim 2, of now as] by (auto simp del: traced_step.simps)
  next
    case 3
    then have "bridge_events c (Session_step i now as) n = [Close (sink_id (sess_sink s))]"
      using assms(2) by simp
    then show ?thesis using close_ok [OF tk 3, of now as] by (auto simp del: traced_step.simps)
  next
    case 4
    then have "bridge_events c (Session_step i now as) n = []"
      using assms(2) by (auto split: session_pc.split)
    then show ?thesis using other_ok [OF tk exact 4, of now as] by auto
  qed
qed

lemma step_leaves_alone:
  assumes "ninv inp n t" and "session_at i n = Some s"
    and "session_at j n = Some s'" and "i \<noteq> j" and "pc_holds (sess_pc s')"
  shows "\<forall>e \<in> set (bridge_events c (Session_step i now as) n). leaves_alone e (sink_index s')"
proof -
  have ne: "pc_holds (sess_pc s) \<Longrightarrow> sink_index s \<noteq> sink_index s'"
    using net_invD(6) [OF assms(1)] assms(2-5) by (auto simp: sinks_distinct_def)
  obtain tk where tk: "session_ok c t s tk"
    using net_invD(5) [OF assms(1)] assms(2) by (auto simp: sessions_ok_def)
  then have "pc_holds (sess_pc s) \<Longrightarrow> 0 \<le> sink_id (sess_sink s)"
    using ok_simps(1) by (auto simp: owns_sink_def)
  then show ?thesis using ne assms(2)
    by (cases "sess_pc s") (auto simp: leaves_alone_def sink_index_def)
qed

lemma step_holds:
  assumes "pc_holds (sess_pc (fst (session_step c Q now as s env)))"
  shows "if sess_pc s = At_sink_open
         then \<exists>k. first_free slot_active 0 (sinks (env_bridge env)) = Some k \<and>
           sink_index (fst (session_step c Q now as s env)) = k
         else pc_holds (sess_pc s) \<and>
           sink_index (fst (session_step c Q now as s env)) = sink_index s"
  using assms
  by (cases "sess_pc s") (auto simp: step_unfold sink_index_def nmea_bridge_sink_open_def
      split: option.splits prod.splits sum.splits)

lemma step_slots_in_use:
  assumes "ninv inp n t" and "session_at i n = Some s"
  shows "length (filter id (slot_flags (fold (traced_step c Q)
            (bridge_events c (Session_step i now as) n) t))) + (if pc_holds (sess_pc s) then 1 else 0) =
         length (filter id (slot_flags t)) +
            (if pc_holds (sess_pc (fst (session_step c Q now as s (net_env n)))) then 1 else 0)"
proof -
  note inv = net_invD(2) [OF assms(1)] and sim = net_invD(1) [OF assms(1)]
  consider "sess_pc s = At_sink_open" | "sess_pc s = At_take" | "sess_pc s = At_sink_close"
    | "sess_pc s \<notin> {At_sink_open, At_take, At_sink_close}" by blast
  then show ?thesis
  proof cases
    case 1
    then have ev: "bridge_events c (Session_step i now as) n = [Open (sess_name s)]"
      using assms(2) by simp
    show ?thesis
    proof (cases "first_free slot_active 0 (sinks (bridge_of t))")
      case None
      then show ?thesis using 1 ev sim open_slots [where t = t and c = c and Q = Q and name = "sess_name s"]
        by (simp add: step_unfold nmea_bridge_sink_open_def del: traced_step.simps)
    next
      case (Some k)
      then show ?thesis using 1 ev sim open_slots [where t = t and c = c and Q = Q and name = "sess_name s"]
          count_update [of k "slot_flags t" id True]
        by (simp add: step_unfold nmea_bridge_sink_open_def del: traced_step.simps)
    qed
  next
    case 2
    then show ?thesis using assms(2)
      by (simp add: step_unfold take_slots del: traced_step.simps split: sum.split)
  next
    case 3
    obtain tk where "session_ok c t s tk"
      using net_invD(5) [OF assms(1)] assms(2) by (auto simp: sessions_ok_def)
    from ok_simps(1) [OF this] 3
    have own: "0 \<le> sink_id (sess_sink s)" "sink_index s < length (slot_flags t)" "slot_flags t ! sink_index s"
      using sinks_length [OF inv] by (auto simp: owns_sink_def slot_flags_def)
    then show ?thesis using 3 assms(2) close_slots [of "sink_id (sess_sink s)" t c Q]
        count_update [of "sink_index s" "slot_flags t" id False]
      by (simp add: step_unfold sink_index_def slot_flags_def del: traced_step.simps)
  next
    case 4
    then show ?thesis using assms(2)
      by (cases "sess_pc s") (auto simp: step_unfold split: option.split prod.split sum.split)
  qed
qed

lemma session_step_net:
  assumes "session_at i n = Some s" and "session_step c Q now as s (net_env n) = (s', env)"
    and "n' = net_step c Q (Session_step i now as) n"
  shows "net_sessions n' = (net_sessions n)[i := Some s']" and "net_env n' = env"
    and "net_rx n' = net_rx n" and "session_at j n' = (if j = i then Some s' else session_at j n)"
    and "i < length (net_sessions n)" and "net_sessions n ! i = Some s"
  using assms by (auto simp: net_session_step_def session_at_def split: if_splits)

lemma step_sessions_ok:
  assumes "ninv inp n t" and "session_at i n = Some s"
  shows "sessions_ok c (fold (traced_step c Q) (bridge_events c (Session_step i now as) n) t)
           (net_step c Q (Session_step i now as) n)"
  unfolding sessions_ok_def
proof (intro allI impI)
  let ?t = "fold (traced_step c Q) (bridge_events c (Session_step i now as) n) t"
  obtain s' env where st: "session_step c Q now as s (net_env n) = (s', env)"
    by (cases "session_step c Q now as s (net_env n)")
  note at = session_step_net(4) [OF assms(2) st refl]
  fix j r assume r: "session_at j (net_step c Q (Session_step i now as) n) = Some r"
  show "\<exists>tk. session_ok c ?t r tk"
  proof (cases "j = i")
    case True
    then show ?thesis using own_step_ok [OF assms, of now as] r at st by simp
  next
    case False
    then have r': "session_at j n = Some r" using r at by simp
    then obtain tk where "session_ok c t r tk"
      using net_invD(5) [OF assms(1)] by (auto simp: sessions_ok_def)
    from session_ok_undisturbed [OF net_invD(2) [OF assms(1)] this
        step_leaves_alone [OF assms r' False [symmetric]]]
    show ?thesis by blast
  qed
qed

lemma step_sink_fresh:
  assumes "ninv inp n t" and "session_at i n = Some s" and "j \<noteq> i" and "session_at j n = Some r"
    and "pc_holds (sess_pc r)" and "pc_holds (sess_pc (fst (session_step c Q now as s (net_env n))))"
  shows "sink_index r \<noteq> sink_index (fst (session_step c Q now as s (net_env n)))"
proof (cases "sess_pc s = At_sink_open")
  case True
  then obtain k where k: "first_free slot_active 0 (sinks (env_bridge (net_env n))) = Some k"
      "sink_index (fst (session_step c Q now as s (net_env n))) = k"
    using step_holds [OF assms(6)] by auto
  obtain tk where "session_ok c t r tk"
    using net_invD(5) [OF assms(1)] assms(4) by (auto simp: sessions_ok_def)
  then have "slot_active (sinks (bridge_of t) ! sink_index r)"
    using ok_simps(1) assms(5) by (auto simp: owns_sink_def)
  then show ?thesis using k first_free_Some [OF k(1)] net_invD(1) [OF assms(1)] by auto
next
  case False
  then show ?thesis using step_holds [OF assms(6)] assms(2-5) net_invD(6) [OF assms(1)]
    unfolding sinks_distinct_def by fastforce
qed

lemma step_distinct:
  assumes "ninv inp n t" and "session_at i n = Some s"
  shows "sinks_distinct (net_step c Q (Session_step i now as) n)"
proof -
  obtain s' env where st: "session_step c Q now as s (net_env n) = (s', env)"
    by (cases "session_step c Q now as s (net_env n)")
  note at = session_step_net(4) [OF assms(2) st refl]
  have "sink_index r \<noteq> sink_index s'"
    if "j \<noteq> i" "session_at j n = Some r" "pc_holds (sess_pc r)" "pc_holds (sess_pc s')" for j r
    using step_sink_fresh [OF assms that(1-3), of now as] that(4) st by simp
  then show ?thesis
    using net_invD(6) [OF assms(1)] unfolding sinks_distinct_def at
    by (metis option.inject)
qed

lemma step_led_count:
  assumes "ninv inp n t" and "length (net_sessions n) < 65536" and "session_at i n = Some s"
    and "status_led_enable c" and "n' = net_step c Q (Session_step i now as) n"
  shows "led_sessions (env_led (net_env n')) = session_count pc_led_counted (net_sessions n')"
proof -
  obtain s' env where st: "session_step c Q now as s (net_env n) = (s', env)"
    by (cases "session_step c Q now as s (net_env n)")
  note net = session_step_net [OF assms(3) st assms(5)]
  have eq: "led_sessions (env_led (net_env n)) = session_count pc_led_counted (net_sessions n)"
    using net_invD(7) [OF assms(1)] assms(4) by (simp add: net_counts_def)
  have pos: "0 < session_count pc_led_counted (net_sessions n)" if "pc_led_counted (sess_pc s)"
    using count_pos [OF net(5), of "\<lambda>x. case x of None \<Rightarrow> False | Some s \<Rightarrow> pc_led_counted (sess_pc s)"]
      net(6) that by (simp add: session_count_def)
  moreover have "session_count pc_led_counted (net_sessions n) < 65535" if "sess_pc s = At_led_started"
  proof -
    have "session_count pc_led_counted (net_sessions n) < length (net_sessions n)"
      unfolding session_count_def
      by (rule length_filter_less [of "Some s"]) (use net(5,6) that in \<open>auto simp: in_set_conv_nth\<close>)
    then show ?thesis using assms(2) by simp
  qed
  ultimately show ?thesis
    using step_led [of c s "net_env n" Q now as] assms(4) eq
      count_step [OF net(5,6), of pc_led_counted s'] st
    unfolding net(1,2) by (auto split: if_splits)
qed

lemma step_counts:
  assumes "ninv inp n t" and "length (net_sessions n) < 65536" and "session_at i n = Some s"
  shows "net_counts c (net_step c Q (Session_step i now as) n)"
proof -
  let ?ev = "Session_step i now as"
  let ?n = "net_step c Q ?ev n" and ?t = "fold (traced_step c Q) (bridge_events c ?ev n) t"
  obtain s' env where st: "session_step c Q now as s (net_env n) = (s', env)"
    by (cases "session_step c Q now as s (net_env n)")
  note net = session_step_net [OF assms(3) st refl]
  note cnt = count_step [OF net(5,6), of _ s']
  have sim: "bridge_of ?t = env_bridge (net_env ?n)"
    by (rule net_bridge_sim [OF net_invD(1) [OF assms(1)]])
  have "length (filter id (slot_flags ?t)) = session_count pc_holds ((net_sessions n)[i := Some s'])"
    using step_slots_in_use [OF assms(1,3), of now as] cnt [of pc_holds] slots_in_use [OF assms(1)]
    unfolding st by (simp del: bridge_events.simps)
  then have "length (filter slot_active (sinks (env_bridge (net_env ?n)))) =
      session_count pc_holds (net_sessions ?n)"
    unfolding sim [symmetric] flags_in_use by (simp only: net(1))
  moreover have "(active_sessions (net_env ?n) :: u32) =
      word_of_nat (session_count pc_counted (net_sessions ?n))"
    unfolding net(1,2)
    using step_active [of c Q now as s "net_env n"] net_invD(7) [OF assms(1), unfolded net_counts_def]
      cnt [of pc_counted, THEN arg_cong, of "word_of_nat :: nat \<Rightarrow> u32"] st
    by (auto split: if_splits) (metis add_right_cancel)+
  ultimately show ?thesis using step_led_count [OF assms _ refl, of now as] by (simp add: net_counts_def)
qed

lemma session_step_ninv:
  assumes "ninv inp n t" and "length (net_sessions n) < 65536"
  shows "ninv inp (net_step c Q (Session_step i now as) n)
           (fold (traced_step c Q) (bridge_events c (Session_step i now as) n) t)"
proof (cases "session_at i n")
  case None
  then show ?thesis using assms by simp
next
  case (Some s)
  let ?ev = "Session_step i now as"
  let ?n = "net_step c Q ?ev n" and ?t = "fold (traced_step c Q) (bridge_events c ?ev n) t"
  obtain s' env where st: "session_step c Q now as s (net_env n) = (s', env)"
    by (cases "session_step c Q now as s (net_env n)")
  have acc: "accepted ?t = accepted t"
    using Some by (auto split: session_pc.split prod.split sum.split option.split)
  have "bridge_of ?t = env_bridge (net_env ?n)"
    by (rule net_bridge_sim [OF net_invD(1) [OF assms(1)]])
  moreover have "tinv ?t" using net_invD(2) [OF assms(1)] by (rule runs.run_inv)
  ultimately show ?thesis
    using net_invD(3,4) [OF assms(1)] step_sessions_ok [OF assms(1) Some, of now as]
      step_distinct [OF assms(1) Some, of now as] step_counts [OF assms Some, of now as]
    unfolding net_inv_def acc session_step_net(3) [OF Some st refl] by blast
qed

text \<open>Calls and returns change neither the bridge nor a counter.\<close>

lemma call_ninv:
  assumes "ninv inp n t"
  shows "ninv inp (net_step c Q (Session_call i fd name sink frame) n) t"
proof (cases "i < length (net_sessions n) \<and> net_sessions n ! i = None")
  case False
  then show ?thesis using assms by auto
next
  case True
  let ?s = "tcp_nmea_session_call sink frame fd name"
  let ?n = "n\<lparr>net_sessions := (net_sessions n)[i := Some ?s]\<rparr>"
  have at: "session_at j ?n = (if j = i then Some ?s else session_at j n)" for j
    using True by (simp add: session_at_def)
  have pc: "sess_pc ?s = At_sink_open" by (simp add: tcp_nmea_session_call_def)
  have "session_ok c t ?s []"
    by (simp add: session_ok_def wire_ok_def tcp_nmea_session_call_def payload_def)
  then have "sessions_ok c t ?n"
    using net_invD(5) [OF assms] unfolding sessions_ok_def at by auto
  moreover have "sinks_distinct ?n"
    using net_invD(6) [OF assms] pc unfolding sinks_distinct_def at by auto
  moreover have "net_counts c ?n"
    using net_invD(7) [OF assms] True count_call [of i "net_sessions n" _ ?s] pc
    by (simp add: net_counts_def)
  ultimately have "ninv inp ?n t" using net_invD(1-4) [OF assms] by (simp add: net_inv_def)
  then show ?thesis using True by simp
qed

lemma return_ninv:
  assumes "ninv inp n t"
  shows "ninv inp (net_step c Q (Session_return i) n) t"
proof (cases "\<exists>s. session_at i n = Some s \<and> sess_pc s = At_return")
  case False
  then show ?thesis using assms by (auto split: option.split)
next
  case True
  then obtain s where s: "session_at i n = Some s" "sess_pc s = At_return" by auto
  let ?n = "n\<lparr>net_sessions := (net_sessions n)[i := None]\<rparr>"
  have i: "i < length (net_sessions n)" "net_sessions n ! i = Some s"
    using s(1) by (auto simp: session_at_def split: if_splits)
  have at: "session_at j ?n = (if j = i then None else session_at j n)" for j
    using i by (simp add: session_at_def)
  have "sessions_ok c t ?n"
    using net_invD(5) [OF assms] unfolding sessions_ok_def at by auto
  moreover have "sinks_distinct ?n"
    using net_invD(6) [OF assms] unfolding sinks_distinct_def at by auto
  moreover have "net_counts c ?n"
    using net_invD(7) [OF assms] i s(2) count_return [OF i] by (simp add: net_counts_def)
  ultimately have "ninv inp ?n t" using net_invD(1-4) [OF assms] by (simp add: net_inv_def)
  then show ?thesis using s by simp
qed

lemma net_step_inv:
  assumes "ninv inp n t" and "length (net_sessions n) < 65536"
  shows "ninv (inp @ uart_input [ev]) (net_step c Q ev n)
           (fold (traced_step c Q) (bridge_events c ev n) t)"
proof (cases ev)
  case (Uart_byte e)
  then show ?thesis using uart_ninv [OF assms(1), of e] by (simp only: uart_input.simps)
next
  case Dispatch_frame
  then show ?thesis using dispatch_ninv [OF assms(1)] by (simp only: uart_input.simps append_Nil2)
next
  case (Session_step i now as)
  then show ?thesis using session_step_ninv [OF assms]
    by (simp only: uart_input.simps append_Nil2)
qed (use call_ninv [OF assms(1)] return_ninv [OF assms(1)] report_ninv [OF assms(1)]
    close_fds_ninv [OF assms(1)] start_call_ninv [OF assms(1)] in
    \<open>simp_all only: uart_input.simps append_Nil2 bridge_events.simps fold_simps\<close>)

end

lemma net_sessions_length: "length (net_sessions (net_step c Q ev n)) = length (net_sessions n)"
  by (cases ev) (auto simp: net_uart_byte_def net_session_step_def Let_def
      split: option.split prod.split)

context bridge_on_queue
begin

lemma net_run_inv:
  "ninv inp n t \<Longrightarrow> length (net_sessions n) < 65536 \<Longrightarrow>
     ninv (inp @ uart_input es) (fold (net_step c Q) es n)
       (fold (traced_step c Q) (net_trace c Q es n) t)"
proof (induction es arbitrary: inp n t)
  case Nil
  then show ?case by simp
next
  case (Cons ev es)
  have "ninv (inp @ uart_input [ev]) (net_step c Q ev n)
      (fold (traced_step c Q) (bridge_events c ev n) t)"
    by (rule net_step_inv [OF Cons.prems])
  moreover have "length (net_sessions (net_step c Q ev n)) < 65536"
    using Cons.prems(2) by (simp only: net_sessions_length)
  ultimately show ?case
    using Cons.IH [of "inp @ uart_input [ev]"] uart_input_append [of "[ev]" es]
    by (simp del: net_step.simps traced_step.simps bridge_events.simps)
qed

lemma net_start_inv:
  assumes "length g = nmea_frame_max_len c"
  shows "ninv [] (net_start c Q q0 g k) (traced_start c Q q0)"
proof -
  have none: "session_at i (net_start c Q q0 g k) = None" for i
    by (simp add: session_at_def net_start_def)
  have "net_counts c (net_start c Q q0 g k)"
    by (simp add: net_counts_def net_start_def session_count_def led_sessions_def
        status_led_storage_def zero_policy_state_def nmea_bridge_init_def bridge_storage_def
        filter_empty_conv)
  moreover have "uart_holds c [] [] (net_rx (net_start c Q q0 g k))"
    using holding_start [OF assms] by (simp add: uart_holds_def net_start_def)
  moreover have "bridge_of (traced_start c Q q0) = env_bridge (net_env (net_start c Q q0 g k))"
    by (simp add: traced_start_def net_start_def)
  ultimately show ?thesis
    using none start_inv [of q0]
    by (simp add: net_inv_def sessions_ok_def sinks_distinct_def traced_start_def payload_def)
qed

end

text \<open>The invariant along a run from the start, out of the locale.\<close>

lemma net_run_sound:
  assumes "kmsgq Q items depth" and "config_ok c" and "length g = nmea_frame_max_len c" and "k < 65536"
  shows "net_inv c items depth (uart_input es) (net_run c Q q0 g k es)
           (traced_run c Q q0 (net_trace c Q es (net_start c Q q0 g k)))"
proof -
  note B = bridge_on_queueI [OF assms(1,2)]
  have "length (net_sessions (net_start c Q q0 g k)) < 65536"
    using assms(4) by (simp add: net_start_def)
  from bridge_on_queue.net_run_inv [OF B bridge_on_queue.net_start_inv [OF B assms(3)] this]
  show ?thesis by (simp add: net_run_def traced_run_def)
qed

end
