(* ===== verification/Sessions_Properties.thy ===== *)
theory Sessions_Properties
  imports Sessions_Inv
begin

text \<open>The properties of the sessions and of the data path from the serial port to the sockets.\<close>

section \<open>Helper lemmas\<close>

lemma payload_subseq: "subseq fs gs \<Longrightarrow> subseq (payload fs) (payload gs)"
proof (induction rule: list_emb.induct)
  case (list_emb_Nil ys)
  then show ?case by (simp add: payload_def)
next
  case (list_emb_Cons xs ys y)
  then show ?case by (simp add: payload_def subseq_drop_many)
next
  case (list_emb_Cons2 x y xs ys)
  then show ?case by (simp add: payload_def list_emb_append_mono)
qed

lemma published_past: "uart_holds c pub inp th \<Longrightarrow> subseq pub inp"
  by (auto simp: uart_holds_def intro: subseq_grow)

text \<open>What a session has taken are lines of the input.\<close>

lemma taken_lines:
  assumes "net_inv c items depth inp n t" and "session_ok c t s tk"
  shows "(\<forall>f \<in> set tk. line_of c inp f) \<and> subseq (payload tk) inp"
proof -
  have sub: "subseq tk (accepted t)" by (rule ok_simps(3) [OF assms(2)])
  have "\<forall>f \<in> set tk. line_of c inp f"
    using net_invD(3) [OF assms(1)] subseq_in_set [OF sub] by blast
  moreover have "subseq (payload tk) inp"
    using payload_subseq [OF sub] published_past [OF net_invD(4) [OF assms(1)]]
      subseq_order.trans by blast
  ultimately show ?thesis ..
qed

lemma net_length: "length (net_sessions (net_run c Q q0 g k es)) = k"
  unfolding net_run_def
  by (induction es rule: rev_induct) (simp_all add: net_sessions_length net_start_def del: net_step.simps)

section \<open>From the serial port to the socket\<close>

text \<open>
  The bytes a session has put on its socket: whole lines of the input, and a proper prefix of
  one more while the session is sending it or if the send has failed.
\<close>

lemma session_wire_lines:
  assumes "kmsgq Q items depth" and "config_ok c" and "length g = nmea_frame_max_len c"
    and "k < 65536" and "session_at i (net_run c Q q0 g k es) = Some s"
  shows "\<exists>ls p. sess_wire s = concat ls @ p \<and>
    (\<forall>l \<in> set ls. is_line l \<and> length l \<le> nmea_frame_max_len c \<and> sublist l (uart_input es)) \<and>
    subseq (sess_wire s) (uart_input es) \<and>
    (p = [] \<or> (sess_pc s = At_send \<or> sess_result s = TCP_NMEA_SESSION_ENDED_SEND_FAILED) \<and>
       (\<exists>l. is_line l \<and> sublist l (uart_input es) \<and> strict_prefix p l))"
proof -
  note inv = net_run_sound [OF assms(1-4), where es = es and ?q0.0 = q0]
  obtain tk where tk: "session_ok c (traced_run c Q q0 (net_trace c Q es (net_start c Q q0 g k))) s tk"
    using net_invD(5) [OF inv] assms(5) by (auto simp: sessions_ok_def)
  have lines: "\<forall>f \<in> set tk. line_of c (uart_input es) f"
    and sub: "subseq (payload tk) (uart_input es)"
    using taken_lines [OF inv tk] by simp_all
  have cut: ?thesis
    if w: "tk = fs @ [f]" "sess_wire s = payload fs @ take m (data f)" "m = 0 \<or> m < length (data f)"
      "sess_pc s = At_send \<or> sess_result s = TCP_NMEA_SESSION_ENDED_SEND_FAILED" for fs f m
  proof (intro exI conjI)
    show "sess_wire s = concat (map data fs) @ take m (data f)" using w(2) by (simp add: payload_def)
    show "\<forall>l \<in> set (map data fs). is_line l \<and> length l \<le> nmea_frame_max_len c \<and>
        sublist l (uart_input es)"
      using lines w(1) by (auto simp: line_of_def)
    have "payload tk = sess_wire s @ drop m (data f)" using w(1,2) by (simp add: payload_def)
    then show "subseq (sess_wire s) (uart_input es)" using sub by (metis subseq_appendD1)
    have "m < length (data f) \<Longrightarrow> strict_prefix (take m (data f)) (data f)"
      by (auto simp: strict_prefix_def take_is_prefix)
    moreover have "is_line (data f) \<and> sublist (data f) (uart_input es)"
      using lines w(1) by (auto simp: line_of_def)
    ultimately show "take m (data f) = [] \<or>
        (sess_pc s = At_send \<or> sess_result s = TCP_NMEA_SESSION_ENDED_SEND_FAILED) \<and>
        (\<exists>l. is_line l \<and> sublist l (uart_input es) \<and> strict_prefix (take m (data f)) l)"
      using w(3,4) by auto
  qed
  have wire: "wire_ok s tk" by (rule ok_simps(2) [OF tk])
  consider fs f m where "tk = fs @ [f]" "sess_wire s = payload fs @ take m (data f)"
      "m = 0 \<or> m < length (data f)"
      "sess_pc s = At_send \<or> sess_result s = TCP_NMEA_SESSION_ENDED_SEND_FAILED"
    | "sess_wire s = payload tk"
    using wire unfolding wire_ok_def by (metis (no_types))
  then show ?thesis
  proof cases
    case 1
    then show ?thesis by (rule cut)
  next
    case 2
    then have "sess_wire s = concat (map data tk) @ []" by (simp add: payload_def)
    moreover have "\<forall>l \<in> set (map data tk). is_line l \<and> length l \<le> nmea_frame_max_len c \<and>
        sublist l (uart_input es)"
      using lines by (auto simp: line_of_def)
    ultimately show ?thesis using sub 2 by metis
  qed
qed

text \<open>The three counts of sessions.\<close>

lemma net_session_counts:
  assumes "kmsgq Q items depth" and "config_ok c" and "length g = nmea_frame_max_len c"
    and "k < 65536" and "n = net_run c Q q0 g k es"
  shows "length (filter slot_active (sinks (env_bridge (net_env n)))) =
           session_count pc_holds (net_sessions n) \<and>
         unat (active_sessions (net_env n)) = session_count pc_counted (net_sessions n) \<and>
         (status_led_enable c \<longrightarrow>
           unat (active_tcp_nmea_sessions (status_led_state (env_led (net_env n)))) =
             session_count pc_led_counted (net_sessions n))"
proof -
  have cnt: "net_counts c n"
    using net_invD(7) [OF net_run_sound [OF assms(1-4), where es = es and ?q0.0 = q0]] assms(5) by simp
  have "length (net_sessions n) = k" unfolding assms(5) by (rule net_length)
  then have "session_count pc_counted (net_sessions n) < 65536"
    using count_le [of pc_counted "net_sessions n"] assms(4) by simp
  then have "unat (active_sessions (net_env n)) = session_count pc_counted (net_sessions n)"
    using cnt by (simp add: net_counts_def unat_of_nat)
  then show ?thesis using cnt by (simp add: net_counts_def led_sessions_def)
qed

section \<open>No session is turned away\<close>

text \<open>
  With no more session threads than sinks every \<open>nmea_bridge_sink_open\<close> succeeds: a session
  that is about to open leaves a slot for itself.
\<close>

definition admitted :: "session \<Rightarrow> bool" where
  "admitted s \<longleftrightarrow> sess_pc s \<noteq> At_close_unregistered \<and>
     sess_result s \<noteq> TCP_NMEA_SESSION_ENDED_SINK_UNAVAILABLE"

lemma step_admitted:
  assumes "net_inv c items depth inp n t" and "length (net_sessions n) \<le> nmea_sinks_max c"
    and "session_at i n = Some s" and "admitted s"
  shows "admitted (fst (session_step c Q now as s (net_env n)))"
proof (cases "sess_pc s = At_sink_open")
  case True
  have "session_count pc_holds (net_sessions n) < length (net_sessions n)"
    unfolding session_count_def
    by (rule length_filter_less [of "Some s"])
      (use assms(3) True in \<open>auto simp: in_set_conv_nth session_at_def split: if_splits\<close>)
  then have "length (filter slot_active (sinks (env_bridge (net_env n)))) <
      length (sinks (env_bridge (net_env n)))"
    using assms(2) net_invD(7) [OF assms(1)] bridge_wfD(1) [OF traced_invD(1) [OF net_invD(2) [OF assms(1)]]]
      net_invD(1) [OF assms(1)] by (simp add: net_counts_def)
  then obtain k where "first_free slot_active 0 (sinks (env_bridge (net_env n))) = Some k"
    using sink_table.alloc_succeeds by blast
  then show ?thesis using True assms(4)
    by (simp add: step_unfold nmea_bridge_sink_open_def admitted_def)
next
  case False
  then show ?thesis using assms(4)
    by (cases "sess_pc s") (auto simp: step_unfold admitted_def dest: drain_result send_loop_end
        split: option.split prod.split sum.split)
qed

lemma run_admitted:
  assumes "kmsgq Q items depth" and "config_ok c" and "length g = nmea_frame_max_len c"
    and "k \<le> nmea_sinks_max c"
  shows "session_at i (net_run c Q q0 g k es) = Some s \<Longrightarrow> admitted s"
proof (induction es arbitrary: i s rule: rev_induct)
  case Nil
  then show ?case by (auto simp: net_run_def net_start_def session_at_def split: if_splits)
next
  case (snoc ev es)
  let ?n = "net_run c Q q0 g k es"
  have k: "k < 65536" using assms(4) config_okD(2) [OF assms(2)] by simp
  note inv = net_run_sound [OF assms(1-3) k, where es = es and ?q0.0 = q0]
  have len: "length (net_sessions ?n) \<le> nmea_sinks_max c" using assms(4) by (simp add: net_length)
  have s: "session_at i (net_step c Q ev ?n) = Some s" using snoc.prems by (simp add: net_run_def)
  show ?case
  proof (cases ev)
    case (Session_call j fd name sink frame)
    then show ?thesis using s snoc.IH [of i]
      by (auto simp: session_at_def nth_list_update tcp_nmea_session_call_def admitted_def
          split: if_splits)
  next
    case (Session_step j now as)
    show ?thesis
    proof (cases "session_at j ?n")
      case None
      then show ?thesis using s snoc.IH [of i] Session_step by simp
    next
      case (Some r)
      have "admitted (fst (session_step c Q now as r (net_env ?n)))"
        by (rule step_admitted [OF inv len Some snoc.IH [OF Some]])
      then show ?thesis using s snoc.IH [of i] Session_step Some
        by (auto simp: session_at_def nth_list_update net_session_step_def split_beta Let_def
            split: if_splits)
    qed
  next
    case (Session_return j)
    then show ?thesis using s snoc.IH [of i]
      by (auto simp: session_at_def nth_list_update split: if_splits option.splits)
  qed (use s snoc.IH [of i] in
      \<open>auto simp: session_at_def net_uart_byte_def Let_def split: option.splits if_splits\<close>)
qed

section \<open>One session\<close>

text \<open>
  C11: Sending a frame is all or a prefix. When \<open>send_all\<close> reports success the socket has
  accepted the whole frame, in order and once, however the calls cut it up and however often
  they were interrupted or would have blocked; when it reports failure the socket has accepted
  a proper prefix. The loop ends as soon as as many calls made progress as the frame has bytes.
\<close>

theorem send_all_exact:
  assumes "length (data f) = unat (len f)"
  shows "(send_all f 0 as wire result = Some (failed, r, wire') \<longrightarrow>
           (if failed
            then r = TCP_NMEA_SESSION_ENDED_SEND_FAILED \<and>
              (\<exists>m < length (data f). wire' = wire @ take m (data f))
            else r = result \<and> wire' = wire @ data f)) \<and>
         (unat (len f) \<le> length (filter (\<lambda>a. \<exists>n > 0. a = Inr n) as) \<longrightarrow>
           send_all f 0 as wire result \<noteq> None)"
proof -
  have f: "frame_exact f" using assms by (simp add: frame_exact_def)
  note w = frame_exact_with [OF f]
  have "send_all f 0 as wire result \<noteq> None"
    if "unat (len f) \<le> length (filter (\<lambda>a. \<exists>n > 0. a = Inr n) as)"
    using session_transmit.run_ends [OF w [THEN conjunct2], of 0 as result wire] that assms w
    by (auto simp: send_bytes_def)
  moreover have "if failed
      then r = TCP_NMEA_SESSION_ENDED_SEND_FAILED \<and>
        (\<exists>m < length (data f). wire' = wire @ take m (data f))
      else r = result \<and> wire' = wire @ data f"
    if "send_all f 0 as wire result = Some (failed, r, wire')"
    using send_all_wire [OF f that] send_all_result [OF that] by simp
  ultimately show ?thesis by blast
qed

theorem send_all_exact_witness:
  "send_all \<lparr>len = 3, data = [36, 65, 10]\<rparr> 0 [Inl EAGAIN, Inr 2, Inl EINTR, Inr 1] []
     TCP_NMEA_SESSION_ENDED_PEER_CLOSED =
   Some (False, TCP_NMEA_SESSION_ENDED_PEER_CLOSED, [] @ [36, 65, 10])"
proof -
  have "send_all \<lparr>len = 3, data = [36, 65, 10]\<rparr> 0 [Inl EAGAIN, Inr 2, Inl EINTR, Inr 1] []
      TCP_NMEA_SESSION_ENDED_PEER_CLOSED =
    Some (False, TCP_NMEA_SESSION_ENDED_PEER_CLOSED, [36, 65, 10])" by code_simp
  then show ?thesis
    using send_all_exact [of "\<lparr>len = 3, data = [36, 65, 10]\<rparr>"
        "[Inl EAGAIN, Inr 2, Inl EINTR, Inr 1]" "[]" TCP_NMEA_SESSION_ENDED_PEER_CLOSED False]
    by simp
qed

text \<open>
  The steps of one session on its own, each from whatever shared state the other threads have
  left: the session and the descriptors it closed.
\<close>

definition lone_step ::
    "app_config \<Rightarrow> 'q msgq_ops \<Rightarrow> int \<times> io_answer list \<times> 'q session_env \<Rightarrow> session \<times> int list
       \<Rightarrow> session \<times> int list" where
  "lone_step c Q e p =
     (let (now, as, env) = e;
          (s', env') = session_step c Q now as (fst p) env
      in (s', snd p @ drop (length (closed_fds env)) (closed_fds env')))"

lemma lone_step_closes:
  "sess_fd (fst (lone_step c Q e p)) = sess_fd (fst p) \<and>
   snd (lone_step c Q e p) =
     snd p @ (if sess_pc (fst (lone_step c Q e p)) = At_return \<and> sess_pc (fst p) \<noteq> At_return
              then [sess_fd (fst p)] else []) \<and>
   (sess_pc (fst p) = At_return \<longrightarrow> sess_pc (fst (lone_step c Q e p)) = At_return)"
  by (cases e; cases p; cases "sess_pc (fst p)")
    (auto simp: lone_step_def step_unfold split: option.split prod.split sum.split)

text \<open>
  C21: A session closes its socket exactly once. Whatever the other threads do to the shared
  state between its steps and whatever the sockets answer, a session has closed nothing before
  it returns, and when it has returned it has closed its own descriptor, once, and no other.
\<close>

theorem session_closes_once:
  "snd (fold (lone_step c Q) es (tcp_nmea_session_call sink frame fd name, [])) =
     (if sess_pc (fst (fold (lone_step c Q) es (tcp_nmea_session_call sink frame fd name, []))) =
         At_return then [fd] else [])"
proof -
  have "sess_fd (fst (fold (lone_step c Q) es (tcp_nmea_session_call sink frame fd name, []))) = fd \<and>
    snd (fold (lone_step c Q) es (tcp_nmea_session_call sink frame fd name, [])) =
     (if sess_pc (fst (fold (lone_step c Q) es (tcp_nmea_session_call sink frame fd name, []))) =
         At_return then [fd] else [])"
  proof (induction es rule: rev_induct)
    case Nil
    then show ?case by (simp add: tcp_nmea_session_call_def)
  next
    case (snoc e es)
    then show ?case
      using lone_step_closes [of c Q e "fold (lone_step c Q) es (tcp_nmea_session_call sink frame fd name, [])"]
      by auto
  qed
  then show ?thesis ..
qed

lemma drain_end:
  assumes "\<forall>a \<in> set reads. \<exists>n > 0. a = Inr n"
    and "final = Inr 0 \<or> (\<exists>e. final = Inl e \<and> \<not> would_block e)"
  shows "drain_socket_rx (reads @ final # rest) result =
    Some (True, if final = Inr 0 then TCP_NMEA_SESSION_ENDED_PEER_CLOSED
                else TCP_NMEA_SESSION_ENDED_RX_FAILED)"
  using assms by (induction reads) auto

lemma teardown_steps:
  "sess_pc (fst p) = At_led_ended \<Longrightarrow> 4 \<le> length es \<Longrightarrow>
     sess_pc (fst (fold (lone_step c Q) es p)) = At_return \<and>
     sess_result (fst (fold (lone_step c Q) es p)) = sess_result (fst p) \<and>
     sess_wire (fst (fold (lone_step c Q) es p)) = sess_wire (fst p)"
proof -
  have stay: "sess_pc (fst p) = At_return \<Longrightarrow> fst (fold (lone_step c Q) es p) = fst p" for p es
    by (induction es arbitrary: p) (auto simp: lone_step_def session_step_def split_beta Let_def)
  assume pc: "sess_pc (fst p) = At_led_ended" and "4 \<le> length es"
  then obtain e1 e2 e3 e4 r where es: "es = e1 # e2 # e3 # e4 # r"
    by (auto simp: numeral_eq_Suc Suc_le_length_iff)
  let ?p = "lone_step c Q e4 (lone_step c Q e3 (lone_step c Q e2 (lone_step c Q e1 p)))"
  have "sess_pc (fst ?p) = At_return \<and> sess_result (fst ?p) = sess_result (fst p) \<and>
      sess_wire (fst ?p) = sess_wire (fst p)"
    using pc by (simp add: lone_step_def step_unfold Let_def)
  then show ?thesis using stay [of ?p r] es by simp
qed

text \<open>
  C20: A session ends when its peer does. When a receive loop of a session reads any data and
  then the end of the stream, or an error other than \<open>EAGAIN\<close>, the session returns within its
  next four steps, whatever else happens, having sent nothing more; the result tells an end of
  stream from an error.
\<close>

theorem session_ends_with_peer:
  assumes "sess_pc s = At_drain \<or> sess_pc s = At_drain_again"
    and "\<forall>a \<in> set reads. \<exists>n > 0. a = Inr n"
    and "final = Inr 0 \<or> (\<exists>e. final = Inl e \<and> e \<noteq> EAGAIN \<and> e \<noteq> EWOULDBLOCK)"
    and "4 \<le> length es"
    and "s' = fst (fold (lone_step c Q) ((now, reads @ final # rest, env) # es) (s, []))"
  shows "sess_pc s' = At_return \<and> sess_wire s' = sess_wire s \<and>
    sess_result s' = (if final = Inr 0 then TCP_NMEA_SESSION_ENDED_PEER_CLOSED
                      else TCP_NMEA_SESSION_ENDED_RX_FAILED)"
proof -
  have "final = Inr 0 \<or> (\<exists>e. final = Inl e \<and> \<not> would_block e)"
    using assms(3) by (auto simp: would_block_def)
  note d = drain_end [OF assms(2) this, of rest]
  let ?p = "lone_step c Q (now, reads @ final # rest, env) (s, [])"
  have p: "sess_pc (fst ?p) = At_led_ended \<and> sess_wire (fst ?p) = sess_wire s \<and>
    sess_result (fst ?p) = (if final = Inr 0 then TCP_NMEA_SESSION_ENDED_PEER_CLOSED
                      else TCP_NMEA_SESSION_ENDED_RX_FAILED)"
    using assms(1) d by (elim disjE) (simp_all add: lone_step_def step_unfold Let_def)
  then show ?thesis using teardown_steps [of ?p es c Q] assms(4,5) by simp
qed

definition demo_session :: session where
  "demo_session =
     \<lparr>sess_fd = 5, sess_name = Some ''demo'', sess_pc = At_drain_again,
      sess_sink = \<lparr>sink_id = 0\<rparr>, sess_frame = \<lparr>len = 2, data = [36, 10]\<rparr>,
      sess_sent = 0, sess_result = TCP_NMEA_SESSION_ENDED_PEER_CLOSED, sess_wire = [36, 10]\<rparr>"

definition demo_env :: "ref_queue session_env" where
  "demo_env = net_env (net_start uart_config ref_msgq (0, []) [] 0)"

theorem session_ends_with_peer_witness:
  "sess_pc (fst (fold (lone_step uart_config ref_msgq)
      ((9, [Inr 20, Inr 0], demo_env) # replicate 4 (9, [], demo_env)) (demo_session, []))) = At_return"
proof -
  let ?es = "replicate 4 (9 :: int, [] :: io_answer list, demo_env)"
  have "sess_pc demo_session = At_drain \<or> sess_pc demo_session = At_drain_again"
    by (simp add: demo_session_def)
  moreover have "\<forall>a \<in> set [Inr 20 :: io_answer]. \<exists>n > 0. a = Inr n" by simp
  moreover have "4 \<le> length ?es" by simp
  ultimately show ?thesis
    using session_ends_with_peer [where reads = "[Inr 20]" and final = "Inr 0" and rest = "[]"
        and c = uart_config and Q = ref_msgq and now = 9 and env = demo_env and es = ?es]
    unfolding append_Cons append_Nil by blast
qed

end
