(* ===== verification/Sessions_Delivery.thy ===== *)
theory Sessions_Delivery
  imports Sessions_Properties
begin

text \<open>
  A line gets through: when the threads take their turns and the peer keeps reading, a line that
  arrives at the serial port is on the socket of a waiting session after one dispatch and two steps
  of the session.
\<close>

section \<open>The bytes of a line\<close>

definition world_of :: "'q net \<Rightarrow> 'q uart_world" where
  "world_of n = \<lparr>uart_rx = net_rx n, uart_nmea_of = net_uart n,
     uart_bridge = env_bridge (net_env n), uart_led = env_led (net_env n)\<rparr>"

lemma net_uart_fold:
  "world_of (fold (net_step c Q) (map Uart_byte es) n) = fold (uart_rx_byte c Q) es (world_of n) \<and>
   net_sessions (fold (net_step c Q) (map Uart_byte es) n) = net_sessions n"
proof (induction es arbitrary: n)
  case Nil
  then show ?case by simp
next
  case (Cons e es)
  have "world_of (net_step c Q (Uart_byte e) n) = uart_rx_byte c Q e (world_of n)"
    by (simp add: world_of_def net_uart_byte_def Let_def)
  moreover have "net_sessions (net_step c Q (Uart_byte e) n) = net_sessions n"
    by (simp add: net_uart_byte_def Let_def)
  ultimately show ?case using Cons.IH [of "net_step c Q (Uart_byte e) n"]
    by (simp del: net_step.simps)
qed

text \<open>A line that fits is the newest frame of the ingest queue.\<close>

lemma line_published:
  assumes "kmsgq Q items depth" and "config_ok c"
    and "bridge_wf c items depth (env_bridge (net_env n))" and "holding c [] (net_rx n)"
    and "is_line (map fst es)" and "length es \<le> nmea_frame_max_len c"
    and "n' = fold (net_step c Q) (map Uart_byte es) n"
  shows "net_sessions n' = net_sessions n \<and>
    sinks (env_bridge (net_env n')) = sinks (env_bridge (net_env n)) \<and>
    items (ingest_msgq (env_bridge (net_env n'))) =
      take_last (ingest_queue_depth c) (items (ingest_msgq (env_bridge (net_env n))) @
        [\<lparr>len = word_of_nat (length es), data = map fst es\<rparr>]) \<and>
    bridge_wf c items depth (env_bridge (net_env n'))"
proof -
  note B = bridge_on_queueI [OF assms(1,2)]
  let ?b = "env_bridge (net_env n)" and ?l = "map fst es"
  note fold = net_uart_fold [of c Q es n]
  have "holding c [] (uart_rx (world_of n))" using assms(4) by (simp add: world_of_def)
  from line_hold [OF this assms(5), of Q] assms(6)
  have "uart_bridge (fold (uart_rx_byte c Q) es (world_of n)) = uart_publish c Q ?l ?b"
    by (simp add: uart_adds_def world_of_def)
  moreover have "env_bridge (net_env n') = uart_bridge (world_of n')" by (simp add: world_of_def)
  ultimately have b: "env_bridge (net_env n') = snd (nmea_bridge_publish_frame c Q (Some ?l) (length es) ?b)"
    using fold by (simp add: assms(7) uart_publish_def)
  have "0 < length es" using assms(5) by (auto simp: is_line_def)
  from bridge_on_queue.publish_effect [OF B assms(3) this assms(6), of ?l]
  obtain q where q: "nmea_bridge_publish_frame c Q (Some ?l) (length es) ?b =
       (success, ?b\<lparr>ingest_msgq := q, bridge_stats := (bridge_stats ?b)
            \<lparr>frames_in := frames_in (bridge_stats ?b) + 1,
             ingest_dropped_oldest := ingest_dropped_oldest (bridge_stats ?b) +
               (if length (items (ingest_msgq ?b)) = ingest_queue_depth c then 1 else 0)\<rparr>\<rparr>)"
      "items q = take_last (ingest_queue_depth c) (items (ingest_msgq ?b) @ [make_frame ?l (length es)])"
    by metis
  have "length es \<le> 512" using assms(6) config_okD(4) [OF assms(2)] by simp
  from make_frame_exact [OF this, of ?l]
  have "make_frame ?l (length es) = \<lparr>len = word_of_nat (length es), data = ?l\<rparr>" by simp
  moreover have "bridge_wf c items depth (env_bridge (net_env n'))"
    unfolding b by (rule bridge_on_queue.publish_wf [OF B assms(3)])
  ultimately show ?thesis using q fold assms(7) b by simp
qed

section \<open>Taking and sending\<close>

lemma send_all_ok:
  assumes "frame_exact f" and "\<forall>a \<in> set as. (\<exists>m > 0. a = Inr m) \<or> (\<exists>e. (would_block e \<or> e = EINTR) \<and> a = Inl e)"
    and "length (data f) \<le> length (filter (\<lambda>a. \<exists>m > 0. a = Inr m) as)"
  shows "send_all f 0 as wire result = Some (False, result, wire @ data f)"
proof -
  note f = frame_exact_with [OF assms(1)]
  have "length (data f) - 0 \<le> length (filter (\<lambda>a. \<exists>m > 0. a = Inr m) as)" using assms(3) by simp
  from session_transmit.run_ok [OF f [THEN conjunct2] assms(2) this, of result wire]
  have "send_bytes result (data f) 0 as wire = Some ((False, result), wire @ data f)" by auto
  then show ?thesis using f by (auto simp: send_bytes_def)
qed

text \<open>One round of the dispatcher puts the line into the sink of the waiting session.\<close>

lemma line_dispatched:
  assumes "kmsgq Q items depth" and "config_ok c"
    and "bridge_wf c items depth (env_bridge (net_env n))" and "holding c [] (net_rx n)"
    and "items (ingest_msgq (env_bridge (net_env n))) = []"
    and "k < nmea_sinks_max c" and "slot_active (sinks (env_bridge (net_env n)) ! k)"
    and "items (slot_msgq (sinks (env_bridge (net_env n)) ! k)) = []"
    and "is_line (map fst es)" and "length es \<le> nmea_frame_max_len c"
    and "n2 = fold (net_step c Q) (map Uart_byte es @ [Dispatch_frame]) n"
  shows "net_sessions n2 = net_sessions n \<and> bridge_wf c items depth (env_bridge (net_env n2)) \<and>
    slot_active (sinks (env_bridge (net_env n2)) ! k) \<and>
    items (slot_msgq (sinks (env_bridge (net_env n2)) ! k)) =
      [\<lparr>len = word_of_nat (length es), data = map fst es\<rparr>]"
proof -
  note B = bridge_on_queueI [OF assms(1,2)]
  let ?n1 = "fold (net_step c Q) (map Uart_byte es) n"
  let ?f = "\<lparr>len = word_of_nat (length es), data = map fst es\<rparr>"
  let ?sl = "sinks (env_bridge (net_env n)) ! k"
  note pub = line_published [OF assms(1-4,9,10) refl]
  have "items (ingest_msgq (env_bridge (net_env ?n1))) = [?f]"
    using pub assms(5) config_okD(5) [OF assms(2)] by simp
  from kmsgq.get_some [OF assms(1) this, of K_FOREVER]
  obtain q where q: "k_msgq_get Q K_FOREVER (ingest_msgq (env_bridge (net_env ?n1))) = (Inr ?f, q)"
    by (metis prod.collapse)
  note disp = dispatcher_iteration_Some [OF q]
  have n2: "n2 = net_step c Q Dispatch_frame ?n1" by (simp add: assms(11))
  have "bridge_wf c items depth (env_bridge (net_env n2))"
    using bridge_on_queue.dispatcher_iteration_wf [OF B pub [THEN conjunct2, THEN conjunct2, THEN conjunct2] disp]
      disp n2 by simp
  moreover have "sinks (env_bridge (net_env n2)) ! k = pushed_slot Q ?f ?sl"
    using disp pub n2 bridge_wfD(1) [OF assms(3)] assms(6) by simp
  moreover have "items (slot_msgq (pushed_slot Q ?f ?sl)) = [?f]"
    using bridge_on_queue.pushed_slot_effect(1) [OF B bridge_wfD(4) [OF assms(3,6)] assms(7), of ?f]
      assms(8) config_okD(6) [OF assms(2)] by simp
  ultimately show ?thesis using disp pub n2 assms(7) by simp
qed

text \<open>
  C2: A line gets through. When the receiver is between lines, a session waits for a frame and no
  frame is queued before it, then after the bytes of a line that fits a frame, one round of the
  dispatcher and two steps of the session, during which the socket keeps accepting bytes, the line
  is on the session's socket, complete and after everything sent before, and the session goes on.
\<close>

theorem line_gets_through:
  assumes "kmsgq Q items depth" and "config_ok c"
    and "bridge_wf c items depth (env_bridge (net_env n))" and "holding c [] (net_rx n)"
    and "items (ingest_msgq (env_bridge (net_env n))) = []"
    and "session_at i n = Some s" and "sess_pc s = At_take" and "sess_sink s = \<lparr>sink_id = int k\<rparr>"
    and "k < nmea_sinks_max c" and "slot_active (sinks (env_bridge (net_env n)) ! k)"
    and "items (slot_msgq (sinks (env_bridge (net_env n)) ! k)) = []"
    and "is_line (map fst es)" and "length es \<le> nmea_frame_max_len c"
    and "\<forall>a \<in> set as. (\<exists>m > 0. a = Inr m) \<or> (\<exists>e. (would_block e \<or> e = EINTR) \<and> a = Inl e)"
    and "length es \<le> length (filter (\<lambda>a. \<exists>m > 0. a = Inr m) as)"
    and "n' = fold (net_step c Q)
           (map Uart_byte es @ [Dispatch_frame, Session_step i t1 [], Session_step i t2 as]) n"
  shows "\<exists>s'. session_at i n' = Some s' \<and> sess_wire s' = sess_wire s @ map fst es \<and>
    sess_pc s' = At_drain_again"
proof -
  let ?n2 = "fold (net_step c Q) (map Uart_byte es @ [Dispatch_frame]) n"
  let ?b2 = "env_bridge (net_env ?n2)" and ?f = "\<lparr>len = word_of_nat (length es), data = map fst es\<rparr>"
  note d = line_dispatched [OF assms(1-5,9-13) refl]
  then have wf2: "bridge_wf c items depth ?b2" and active2: "slot_active (sinks ?b2 ! k)"
    and items2: "items (slot_msgq (sinks ?b2 ! k)) = [?f]" by simp_all
  have at2: "session_at i ?n2 = Some s" using d assms(6) by (simp add: session_at_def split: if_splits)
  have sink: "0 \<le> sink_id (sess_sink s)" "nat (sink_id (sess_sink s)) = k" using assms(8) by simp_all
  obtain b3 where take: "nmea_bridge_sink_take Q (Some (sess_sink s)) False FRAME_WAIT ?b2 = (Inr ?f, b3)"
    using items2 by (cases rule: bridge_on_queue.take_active_cases
        [OF bridge_on_queueI [OF assms(1,2)] wf2 sink assms(9) active2, of FRAME_WAIT]) auto
  let ?n3 = "net_step c Q (Session_step i t1 []) ?n2"
  let ?s3 = "s\<lparr>sess_frame := ?f, sess_sent := 0, sess_pc := At_send\<rparr>"
  have at3: "session_at i ?n3 = Some ?s3"
    using at2 take assms(7)
    by (auto simp: session_at_def net_session_step_def session_step_def session_take_def split: if_splits)
  have "length es < 65536" using assms(13) config_okD(4) [OF assms(2)] by simp
  then have exact: "frame_exact ?f" by (simp add: frame_exact_def unat_of_nat)
  have "length (data ?f) \<le> length (filter (\<lambda>a. \<exists>m > 0. a = Inr m) as)" using assms(15) by simp
  from send_all_ok [OF exact assms(14) this, of "sess_wire s" "sess_result s"]
  have "send_loop (sess_frame ?s3) (sess_sent ?s3) as (sess_wire ?s3) (sess_result ?s3) =
      (Inr (False, sess_result s), sess_wire s @ map fst es)"
    by (simp add: send_all_def split: prod.splits sum.splits)
  then have "session_at i (net_step c Q (Session_step i t2 as) ?n3) =
      Some (?s3\<lparr>sess_result := sess_result s, sess_wire := sess_wire s @ map fst es,
        sess_pc := At_drain_again\<rparr>)"
    using at3
    by (auto simp: session_at_def net_session_step_def session_step_def session_send_def split_beta
        split: if_splits)
  then show ?thesis unfolding assms(16) by simp
qed

text \<open>A session that has opened its sink and waits for its first frame.\<close>

definition waiting_events :: "net_event list" where
  "waiting_events =
     [Session_call 0 5 (Some ''peer'') \<lparr>sink_id = 7\<rparr> \<lparr>len = 0, data = []\<rparr>, Session_step 0 0 [],
      Session_step 0 0 [], Session_step 0 0 [], Session_step 0 0 [Inl EAGAIN]]"

definition waiting_net :: "ref_queue net" where
  "waiting_net = net_run uart_config ref_msgq (0, []) (replicate 32 0) 1 waiting_events"

definition waiting_session :: session where
  "waiting_session =
     \<lparr>sess_fd = 5, sess_name = Some ''peer'', sess_pc = At_take, sess_sink = \<lparr>sink_id = 0\<rparr>,
      sess_frame = \<lparr>len = 0, data = []\<rparr>, sess_sent = 0, sess_result = TCP_NMEA_SESSION_ENDED_PEER_CLOSED, sess_wire = []\<rparr>"

lemma waiting_net_eval:
  "net_sessions waiting_net = [Some waiting_session]"
  "net_rx waiting_net = uart_thread_start (replicate 32 0)"
  "snd (ingest_msgq (env_bridge (net_env waiting_net))) = []"
  "slot_active (sinks (env_bridge (net_env waiting_net)) ! 0)"
  "snd (slot_msgq (sinks (env_bridge (net_env waiting_net)) ! 0)) = []"
  by code_simp+

lemma uart_config_max: "nmea_frame_max_len uart_config = 32"
  by (simp add: uart_config_def small_config_def default_config_def)

lemma uart_config_fine: "config_ok uart_config"
  by (simp add: config_ok_def kconfig_ranges_def sinks_build_assert_def uart_config_def
      small_config_def default_config_def)

lemma net_run_wf:
  assumes "kmsgq Q items depth" and "config_ok c" and "length g = nmea_frame_max_len c" and "k < 65536"
  shows "bridge_wf c items depth (env_bridge (net_env (net_run c Q q0 g k es)))"
proof -
  note inv = net_run_sound [OF assms, where es = es and ?q0.0 = q0]
  show ?thesis using traced_invD(1) [OF net_invD(2) [OF inv]] unfolding net_invD(1) [OF inv] .
qed

lemma waiting_wf: "bridge_wf uart_config snd fst (env_bridge (net_env waiting_net))"
  unfolding waiting_net_def
  by (rule net_run_wf [OF ref.kmsgq_axioms uart_config_fine]) (simp_all add: uart_config_max)

theorem line_gets_through_witness:
  "\<exists>s'. session_at 0 (fold (net_step uart_config ref_msgq)
      (map Uart_byte [(36, 1), (10, 2)] @ [Dispatch_frame, Session_step 0 3 [],
         Session_step 0 4 [Inr 1, Inl EAGAIN, Inr 1]]) waiting_net) = Some s' \<and>
    sess_wire s' = [36, 10]"
proof -
  have hold: "holding uart_config [] (net_rx waiting_net)"
    unfolding waiting_net_eval by (rule holding_start) (simp add: uart_config_max)
  have line: "is_line (map fst [(36 :: u8, 1 :: int), (10, 2)])" by (simp add: is_line_def)
  have at: "session_at 0 waiting_net = Some waiting_session"
    by (simp add: session_at_def waiting_net_eval)
  have pc: "sess_pc waiting_session = At_take" and sink: "sess_sink waiting_session = \<lparr>sink_id = int 0\<rparr>"
    and wire: "sess_wire waiting_session = []"
    by (simp_all add: waiting_session_def)
  have one: "0 < nmea_sinks_max uart_config" using config_okD(1) [OF uart_config_fine] by simp
  have fits: "length [(36 :: u8, 1 :: int), (10, 2)] \<le> nmea_frame_max_len uart_config"
    by (simp add: uart_config_max)
  have answers: "\<forall>a \<in> set [Inr (1 :: nat), Inl EAGAIN, Inr 1].
      (\<exists>m > 0. a = Inr m) \<or> (\<exists>e. (would_block e \<or> e = EINTR) \<and> a = Inl e)"
    by (simp add: would_block_def)
  have enough: "length [(36 :: u8, 1 :: int), (10, 2)] \<le>
      length (filter (\<lambda>a. \<exists>m > 0. a = Inr m) [Inr (1 :: nat), Inl EAGAIN, Inr 1])" by simp
  note line_gets_through [OF ref.kmsgq_axioms uart_config_fine waiting_wf hold waiting_net_eval(3)
      at pc sink one waiting_net_eval(4,5) line fits answers enough refl, of 3 4]
  then show ?thesis by (simp only: wire list.map fst_conv append.left_neutral) blast
qed

end
