(* ===== verification/Wifi.thy ===== *)
theory Wifi
  imports Config
begin

text \<open>
  \<open>src/wifi_manager.c\<close> and \<open>src/wifi_manager.h\<close>: the access point, the station connection with its retry
  thread, and what the rest of the program asks about the station. Zephyr's network management
  is not part of the repository: the address table of the interfaces, the text-to-address
  function and the answer to each request are arguments; the requests made are outputs.
\<close>

section \<open>Interfaces and addresses\<close>

type_synonym in_addr = "u8 \<times> u8 \<times> u8 \<times> u8"

definition addr_unspecified :: "in_addr \<Rightarrow> bool" where
  "addr_unspecified a \<longleftrightarrow> a = (0, 0, 0, 0)"

text \<open>
  An interface is a number. \<open>unicast i\<close> is the IPv4 address table of interface \<open>i\<close> (\<open>None\<close> if it
  has no IPv4 configuration): for each entry whether DHCP assigned it, and the address.
\<close>

type_synonym iface = nat

record net_ifs =
  unicast :: "iface \<Rightarrow> (bool \<times> in_addr) list option"
  gateway :: "iface \<Rightarrow> in_addr"
  link_addr :: "iface \<Rightarrow> u8 list option"
  admin_up :: "iface \<Rightarrow> bool"

datatype wifi_security = WIFI_SECURITY_TYPE_NONE | WIFI_SECURITY_TYPE_PSK

record wifi_connect_req_params =
  ssid :: string
  psk :: string
  security :: wifi_security

text \<open>The calls into Zephyr that change something outside this component.\<close>

datatype net_call =
    Set_gw iface in_addr
  | Addr_add_manual iface in_addr
  | Set_netmask iface in_addr in_addr
  | Dhcpv4_server_start iface in_addr
  | Request_ap_enable iface wifi_connect_req_params
  | Request_connect iface wifi_connect_req_params
  | Request_disconnect iface
  | Request_power_save_off iface
  | Request_set_mac iface "u8 list"
  | Esp_wifi_set_mode_sta
  | If_down iface
  | If_up iface

section \<open>State\<close>

record wifi_manager =
  ap_iface :: "iface option"
  sta_iface :: "iface option"
  sta_connected :: bool
  sta_has_addr :: bool
  sta_ipv4_logged :: bool
  sta_connect_requested :: bool
  sta_retry_enabled :: bool
  sta_retry_backoff_s :: u32

definition wifi_storage :: wifi_manager where
  "wifi_storage =
     \<lparr>ap_iface = None, sta_iface = None, sta_connected = False, sta_has_addr = False,
      sta_ipv4_logged = False, sta_connect_requested = False, sta_retry_enabled = False,
      sta_retry_backoff_s = 5\<rparr>"

section \<open>Readiness\<close>

text \<open>The loop over the address table.\<close>

fun first_dhcp_addr :: "(bool \<times> in_addr) list \<Rightarrow> in_addr option" where
  "first_dhcp_addr [] = None"
| "first_dhcp_addr ((dhcp, a) # as) =
     (if \<not> dhcp then first_dhcp_addr as
      else if addr_unspecified a then first_dhcp_addr as
      else Some a)"

definition sta_dhcp_addr :: "net_ifs \<Rightarrow> wifi_manager \<Rightarrow> in_addr option" where
  "sta_dhcp_addr ifs w =
     (case sta_iface w of
        None \<Rightarrow> None
      | Some i \<Rightarrow> (case unicast ifs i of None \<Rightarrow> None | Some as \<Rightarrow> first_dhcp_addr as))"

text \<open>
  The flags are plain variables without a lock: the thread of the network events, the threads that
  ask whether the station is ready and the retry thread all read and write them, and can preempt
  each other between any two accesses. A function that uses them is therefore a machine that makes
  one access in a step. The address table belongs to Zephyr; the argument of a step is the table as
  the loop over it finds it.

  \<open>mark_sta_ipv4_ready\<close>: the access that comes next.
\<close>

datatype mark_pc =
    Mark_addr
  | Mark_connected
  | Mark_has_addr
  | Mark_read_logged
  | Mark_logged
  | Mark_returned bool

definition mark_step :: "net_ifs \<Rightarrow> mark_pc \<Rightarrow> wifi_manager \<Rightarrow> mark_pc \<times> wifi_manager" where
  "mark_step ifs pc w =
     (case pc of
        Mark_addr \<Rightarrow>
          (if sta_dhcp_addr ifs w = None then Mark_returned False else Mark_connected, w)
      | Mark_connected \<Rightarrow> (Mark_has_addr, w\<lparr>sta_connected := True\<rparr>)
      | Mark_has_addr \<Rightarrow> (Mark_read_logged, w\<lparr>sta_has_addr := True\<rparr>)
      | Mark_read_logged \<Rightarrow> (if sta_ipv4_logged w then Mark_returned True else Mark_logged, w)
      | Mark_logged \<Rightarrow> (Mark_returned True, w\<lparr>sta_ipv4_logged := True\<rparr>)
      | Mark_returned ret \<Rightarrow> (pc, w))"

text \<open>\<open>wifi_manager_sta_ready\<close>: the two reads of the condition, the call, the two reads of the result.\<close>

datatype ready_pc =
    Ready_connected
  | Ready_has_addr
  | Ready_marking mark_pc
  | Ready_connected_again
  | Ready_has_addr_again
  | Ready_returned bool

definition ready_step :: "net_ifs \<Rightarrow> ready_pc \<Rightarrow> wifi_manager \<Rightarrow> ready_pc \<times> wifi_manager" where
  "ready_step ifs pc w =
     (case pc of
        Ready_connected \<Rightarrow> (if sta_connected w then Ready_has_addr else Ready_connected_again, w)
      | Ready_has_addr \<Rightarrow>
          (if sta_has_addr w then Ready_connected_again else Ready_marking Mark_addr, w)
      | Ready_marking m \<Rightarrow>
          (case mark_step ifs m w of
             (Mark_returned _, w1) \<Rightarrow> (Ready_connected_again, w1)
           | (m1, w1) \<Rightarrow> (Ready_marking m1, w1))
      | Ready_connected_again \<Rightarrow>
          (if sta_connected w then Ready_has_addr_again else Ready_returned False, w)
      | Ready_has_addr_again \<Rightarrow> (Ready_returned (sta_has_addr w), w)
      | Ready_returned ready \<Rightarrow> (pc, w))"

definition wifi_manager_sta_iface :: "wifi_manager \<Rightarrow> iface option" where
  "wifi_manager_sta_iface w = sta_iface w"

text \<open>
  \<open>wifi_manager_get_sta_gateway\<close>; \<open>gw_null\<close>: the argument is \<open>NULL\<close>. \<open>Gateway_returned\<close> has the
  result and what has been stored through the argument, if anything.
\<close>

datatype gateway_pc =
    Gateway_ready ready_pc
  | Gateway_read
  | Gateway_returned bool "in_addr option"

definition gateway_call :: "bool \<Rightarrow> gateway_pc" where
  "gateway_call gw_null = (if gw_null then Gateway_returned False None else Gateway_ready Ready_connected)"

definition gateway_step :: "net_ifs \<Rightarrow> gateway_pc \<Rightarrow> wifi_manager \<Rightarrow> gateway_pc \<times> wifi_manager" where
  "gateway_step ifs pc w =
     (case pc of
        Gateway_ready q \<Rightarrow>
          (case ready_step ifs q w of
             (Ready_returned ready, w1) \<Rightarrow>
               (if ready then Gateway_read else Gateway_returned False None, w1)
           | (q1, w1) \<Rightarrow> (Gateway_ready q1, w1))
      | Gateway_read \<Rightarrow>
          (let gw = gateway ifs (the (sta_iface w))
           in (Gateway_returned (\<not> addr_unspecified gw) (Some gw), w))
      | Gateway_returned ok gw \<Rightarrow> (pc, w))"

section \<open>Events\<close>

text \<open>\<open>status\<close> is \<open>None\<close> when \<open>cb->info\<close> is \<open>NULL\<close>, else the status it carries.\<close>

datatype mgmt_event =
    WIFI_CONNECT_RESULT "int option"
  | WIFI_DISCONNECT_RESULT
  | WIFI_AP_ENABLE_RESULT
  | WIFI_AP_DISABLE_RESULT
  | WIFI_AP_STA_CONNECTED
  | WIFI_AP_STA_DISCONNECTED
  | IPV4_ADDR_ADD
  | IPV4_DHCP_BOUND
  | IPV4_DHCP_STOP

text \<open>The assignments of a handler.\<close>

datatype flag_write =
    Write_connected bool
  | Write_has_addr bool
  | Write_logged bool
  | Write_requested bool
  | Write_backoff u32

fun apply_write :: "flag_write \<Rightarrow> wifi_manager \<Rightarrow> wifi_manager" where
  "apply_write (Write_connected b) w = w\<lparr>sta_connected := b\<rparr>"
| "apply_write (Write_has_addr b) w = w\<lparr>sta_has_addr := b\<rparr>"
| "apply_write (Write_logged b) w = w\<lparr>sta_ipv4_logged := b\<rparr>"
| "apply_write (Write_requested b) w = w\<lparr>sta_connect_requested := b\<rparr>"
| "apply_write (Write_backoff s) w = w\<lparr>sta_retry_backoff_s := s\<rparr>"

text \<open>
  Where a handler stands: its assignments still to be made, in order, and whether it calls
  \<open>mark_sta_ipv4_ready\<close> after them.
\<close>

datatype handler_pc =
    Handler_idle
  | Handler_entered mgmt_event iface
  | Handler_writing "flag_write list" bool
  | Handler_marking mark_pc

fun handler_goes_on :: "flag_write list \<Rightarrow> bool \<Rightarrow> handler_pc" where
  "handler_goes_on [] mark = (if mark then Handler_marking Mark_addr else Handler_idle)"
| "handler_goes_on ws mark = Handler_writing ws mark"

definition wifi_event_case :: "mgmt_event \<Rightarrow> iface \<Rightarrow> wifi_manager \<Rightarrow> handler_pc" where
  "wifi_event_case ev i w =
     (case ev of
        WIFI_CONNECT_RESULT status \<Rightarrow>
          if Some i \<noteq> sta_iface w then Handler_idle
          else if status \<noteq> None \<and> status \<noteq> Some 0
          then Handler_writing [Write_connected False, Write_has_addr False, Write_logged False,
                 Write_requested False] False
          else Handler_writing [Write_connected True, Write_requested False, Write_backoff 5] True
      | WIFI_DISCONNECT_RESULT \<Rightarrow>
          if Some i \<noteq> sta_iface w then Handler_idle
          else Handler_writing [Write_connected False, Write_has_addr False, Write_logged False,
                 Write_requested False] False
      | _ \<Rightarrow> Handler_idle)"

definition ipv4_event_case :: "mgmt_event \<Rightarrow> iface \<Rightarrow> wifi_manager \<Rightarrow> handler_pc" where
  "ipv4_event_case ev i w =
     (case ev of
        IPV4_ADDR_ADD \<Rightarrow> Handler_marking Mark_addr
      | IPV4_DHCP_BOUND \<Rightarrow> Handler_marking Mark_addr
      | IPV4_DHCP_STOP \<Rightarrow>
          if Some i = sta_iface w then Handler_writing [Write_has_addr False, Write_logged False] False
          else Handler_idle
      | _ \<Rightarrow> Handler_idle)"

text \<open>Each callback is registered for the events of one mask.\<close>

definition event_case :: "mgmt_event \<Rightarrow> iface \<Rightarrow> wifi_manager \<Rightarrow> handler_pc" where
  "event_case ev i w =
     (if ev \<in> {IPV4_ADDR_ADD, IPV4_DHCP_BOUND, IPV4_DHCP_STOP} then ipv4_event_case ev i w
      else wifi_event_case ev i w)"

definition handler_step :: "net_ifs \<Rightarrow> handler_pc \<Rightarrow> wifi_manager \<Rightarrow> handler_pc \<times> wifi_manager" where
  "handler_step ifs pc w =
     (case pc of
        Handler_idle \<Rightarrow> (pc, w)
      | Handler_entered ev i \<Rightarrow> (event_case ev i w, w)
      | Handler_writing [] mark \<Rightarrow> (handler_goes_on [] mark, w)
      | Handler_writing (x # xs) mark \<Rightarrow> (handler_goes_on xs mark, apply_write x w)
      | Handler_marking m \<Rightarrow>
          (case mark_step ifs m w of
             (Mark_returned _, w1) \<Rightarrow> (Handler_idle, w1)
           | (m1, w1) \<Rightarrow> (Handler_marking m1, w1)))"

text \<open>
  A handler with no other thread in between. It has at most four assignments, or three and the five
  accesses of \<open>mark_sta_ipv4_ready\<close>.
\<close>

definition handler_to_end :: "net_ifs \<Rightarrow> handler_pc \<Rightarrow> wifi_manager \<Rightarrow> handler_pc \<times> wifi_manager" where
  "handler_to_end ifs pc w = ((\<lambda>(pc, w). handler_step ifs pc w) ^^ 8) (pc, w)"

definition wifi_event_handler ::
    "net_ifs \<Rightarrow> mgmt_event \<Rightarrow> iface \<Rightarrow> wifi_manager \<Rightarrow> wifi_manager" where
  "wifi_event_handler ifs ev i w = snd (handler_to_end ifs (wifi_event_case ev i w) w)"

definition ipv4_event_handler ::
    "net_ifs \<Rightarrow> mgmt_event \<Rightarrow> iface \<Rightarrow> wifi_manager \<Rightarrow> wifi_manager" where
  "ipv4_event_handler ifs ev i w = snd (handler_to_end ifs (ipv4_event_case ev i w) w)"

section \<open>The access point\<close>

text \<open>
  \<open>net\<close> answers the requests, \<open>pton\<close> is \<open>net_addr_pton\<close>. Results come with the calls made, in
  order. \<open>net_if_ipv4_addr_add\<close> may fail; that is only logged.
\<close>

definition pool_start_of :: "in_addr \<Rightarrow> in_addr" where
  "pool_start_of a = (case a of (a0, a1, a2, a3) \<Rightarrow> (a0, a1, a2, a3 + 10))"

definition start_dhcp_server ::
    "app_config \<Rightarrow> (string \<Rightarrow> in_addr option) \<Rightarrow> (net_call \<Rightarrow> status) \<Rightarrow> iface
       \<Rightarrow> status \<times> net_call list" where
  "start_dhcp_server c pton net i =
     (case pton (ap_ip_address c) of
        None \<Rightarrow> (failure EINVAL, [])
      | Some addr \<Rightarrow>
          (case pton (ap_netmask c) of
             None \<Rightarrow> (failure EINVAL, [])
           | Some netmask \<Rightarrow>
               (let calls = [Set_gw i addr, Addr_add_manual i addr, Set_netmask i addr netmask]
                in case net (Set_netmask i addr netmask) of
                     Inl _ \<Rightarrow> (failure EIO, calls)
                   | Inr _ \<Rightarrow>
                       (let start = Dhcpv4_server_start i (pool_start_of addr)
                        in (net start, calls @ [start])))))"

text \<open>The length of the empty password is 0, and 0 selects an open network.\<close>

definition security_of :: "string \<Rightarrow> wifi_security" where
  "security_of key = (if length key = 0 then WIFI_SECURITY_TYPE_NONE else WIFI_SECURITY_TYPE_PSK)"

definition enable_ap ::
    "app_config \<Rightarrow> (string \<Rightarrow> in_addr option) \<Rightarrow> (net_call \<Rightarrow> status) \<Rightarrow> wifi_manager
       \<Rightarrow> status \<times> net_call list" where
  "enable_ap c pton net w =
     (case ap_iface w of
        None \<Rightarrow> (failure ENODEV, [])
      | Some i \<Rightarrow>
          (let ap_config = \<lparr>ssid = ap_ssid c, psk = ap_psk c, security = security_of (ap_psk c)\<rparr>
           in case start_dhcp_server c pton net i of
                (Inl e, calls) \<Rightarrow> (failure e, calls)
              | (Inr _, calls) \<Rightarrow>
                  (let request = Request_ap_enable i ap_config
                   in (net request, calls @ [request]))))"

section \<open>The station\<close>

definition disable_sta_power_save :: "wifi_manager \<Rightarrow> net_call list" where
  "disable_sta_power_save w =
     (case sta_iface w of None \<Rightarrow> [] | Some i \<Rightarrow> [Request_power_save_off i])"

definition disconnect_sta :: "wifi_manager \<Rightarrow> net_call list" where
  "disconnect_sta w = (case sta_iface w of None \<Rightarrow> [] | Some i \<Rightarrow> [Request_disconnect i])"

text \<open>\<open>(addr[0] & 0xFC) | 0x02\<close>, after three random bytes from \<open>sys_rand_get\<close>.\<close>

definition rotated_mac :: "u8 list \<Rightarrow> u8 \<times> u8 \<times> u8 \<Rightarrow> u8 list" where
  "rotated_mac mac rand =
     (case rand of (r0, r1, r2) \<Rightarrow>
        (let m1 = mac[3 := r0, 4 := r1, 5 := r2]
         in m1[0 := or (and (m1 ! 0) 0xFC) 0x02]))"

definition rotate_sta_mac ::
    "app_config \<Rightarrow> net_ifs \<Rightarrow> (net_call \<Rightarrow> status) \<Rightarrow> u8 \<times> u8 \<times> u8 \<Rightarrow> wifi_manager \<Rightarrow> net_call list" where
  "rotate_sta_mac c ifs net rand w =
     (if \<not> sta_rotate_mac c \<or> sta_iface w = None then []
      else (let i = the (sta_iface w)
            in case net Esp_wifi_set_mode_sta of
                 Inl _ \<Rightarrow> [Esp_wifi_set_mode_sta]
               | Inr _ \<Rightarrow>
                   (case link_addr ifs i of
                      None \<Rightarrow> [Esp_wifi_set_mode_sta]
                    | Some mac \<Rightarrow>
                        if length mac \<noteq> 6 then [Esp_wifi_set_mode_sta]
                        else (let set_mac = Request_set_mac i (rotated_mac mac rand);
                                  was_up = admin_up ifs i
                              in if was_up \<and> net (If_down i) \<noteq> success
                                 then [Esp_wifi_set_mode_sta, If_down i]
                                 else Esp_wifi_set_mode_sta # (if was_up then [If_down i] else []) @
                                      [set_mac] @ (if was_up then [If_up i] else [])))))"

text \<open>
  \<open>connect_sta\<close> in two steps, since the handler of the result may run in another thread as soon
  as the request has been made: the request, and what follows its answer.
\<close>

datatype connect_request =
    Connect_returns status
  | Connect_requested status

definition connect_sta_request ::
    "app_config \<Rightarrow> (net_call \<Rightarrow> status) \<Rightarrow> wifi_manager \<Rightarrow> connect_request \<times> net_call list" where
  "connect_sta_request c net w =
     (case sta_iface w of
        None \<Rightarrow> (Connect_returns (failure ENODEV), [])
      | Some i \<Rightarrow>
          if length (sta_ssid c) = 0 then (Connect_returns success, [])
          else (let sta_config = \<lparr>ssid = sta_ssid c, psk = sta_psk c,
                                  security = security_of (sta_psk c)\<rparr>;
                    request = Request_connect i sta_config
                in (Connect_requested (net request), [request])))"

definition connect_sta_finish :: "connect_request \<Rightarrow> wifi_manager \<Rightarrow> status \<times> net_call list \<times> wifi_manager" where
  "connect_sta_finish r w =
     (case r of
        Connect_returns ret \<Rightarrow> (ret, [], w)
      | Connect_requested (Inl e) \<Rightarrow> (failure e, [], w\<lparr>sta_connect_requested := False\<rparr>)
      | Connect_requested (Inr _) \<Rightarrow>
          (success, disable_sta_power_save w, w\<lparr>sta_connect_requested := True\<rparr>))"

text \<open>The two steps with no event in between.\<close>

definition connect_sta ::
    "app_config \<Rightarrow> (net_call \<Rightarrow> status) \<Rightarrow> wifi_manager \<Rightarrow> status \<times> net_call list \<times> wifi_manager" where
  "connect_sta c net w =
     (let (r, calls) = connect_sta_request c net w;
          (ret, calls', w') = connect_sta_finish r w
      in (ret, calls @ calls', w'))"

section \<open>The retry thread\<close>

datatype retry_pc =
    Retry_start
  | Retry_wait_enabled
  | Retry_check
  | Retry_recheck
  | Retry_request
  | Retry_finish connect_request
  | Retry_ended

definition next_retry_backoff :: "u32 \<Rightarrow> u32" where
  "next_retry_backoff b = min (b * 2) 60"

text \<open>
  One step of \<open>sta_retry_thread\<close>, up to its next sleep or shared access. The result says how
  many ms the thread sleeps before its next step and which requests it made. The step from
  \<open>Retry_recheck\<close> comes after the back-off sleep, that from \<open>Retry_request\<close> after the 500 ms
  that follow the disconnect request.
\<close>

definition retry_step ::
    "app_config \<Rightarrow> (net_call \<Rightarrow> status) \<Rightarrow> retry_pc \<Rightarrow> wifi_manager
       \<Rightarrow> retry_pc \<times> wifi_manager \<times> nat \<times> net_call list" where
  "retry_step c net pc w =
     (case pc of
        Retry_start \<Rightarrow>
          if \<not> sta_enable c \<or> length (sta_ssid c) = 0 then (Retry_ended, w, 0, [])
          else (Retry_wait_enabled, w, 0, [])
      | Retry_wait_enabled \<Rightarrow>
          if \<not> sta_retry_enabled w then (Retry_wait_enabled, w, 1000, [])
          else (Retry_check, w, 0, [])
      | Retry_check \<Rightarrow>
          if sta_connected w \<or> sta_connect_requested w then (Retry_check, w, 1000, [])
          else (Retry_recheck, w, 1000 * unat (sta_retry_backoff_s w), [])
      | Retry_recheck \<Rightarrow>
          if sta_connected w \<or> sta_connect_requested w then (Retry_check, w, 0, [])
          else (Retry_request, w, 500, disconnect_sta w)
      | Retry_request \<Rightarrow>
          (let (r, calls) = connect_sta_request c net w in (Retry_finish r, w, 0, calls))
      | Retry_finish r \<Rightarrow>
          (let (ret, calls, w') = connect_sta_finish r w
           in (Retry_check,
               w'\<lparr>sta_retry_backoff_s := next_retry_backoff (sta_retry_backoff_s w')\<rparr>, 0, calls))
      | Retry_ended \<Rightarrow> (Retry_ended, w, 0, []))"

section \<open>Start\<close>

text \<open>
  \<open>wifi_manager_start\<close>. \<open>sap\<close> and \<open>sta\<close> are the interfaces Zephyr reports. The statuses in a
  control point are the value of \<open>ret\<close>.
\<close>

datatype wifi_start_pc =
    Start_ifaces
  | Start_mac
  | Start_ap
  | Start_disconnect status
  | Start_connect status
  | Start_connected status connect_request
  | Start_enable_retry status
  | Start_returned status

record wifi_answers =
  answer_pton :: "string \<Rightarrow> in_addr option"
  answer_ifs :: net_ifs
  answer_net :: "net_call \<Rightarrow> status"
  answer_random :: "u8 \<times> u8 \<times> u8"
  answer_sap :: "iface option"
  answer_sta :: "iface option"

text \<open>
  One step, up to the next access to shared state or the next sleep; the third component of the
  result are the ms slept at its end. \<open>ap_iface\<close> is read by this function only.
\<close>

definition wifi_start_step ::
    "app_config \<Rightarrow> wifi_answers \<Rightarrow> wifi_start_pc \<Rightarrow> wifi_manager
       \<Rightarrow> wifi_start_pc \<times> wifi_manager \<times> nat \<times> net_call list" where
  "wifi_start_step c a pc w =
     (case pc of
        Start_ifaces \<Rightarrow> (Start_mac, w\<lparr>ap_iface := answer_sap a, sta_iface := answer_sta a\<rparr>, 0, [])
      | Start_mac \<Rightarrow>
          (Start_ap, w, 0, rotate_sta_mac c (answer_ifs a) (answer_net a) (answer_random a) w)
      | Start_ap \<Rightarrow>
          (let (ret, calls) =
             (if ap_enable c then enable_ap c (answer_pton a) (answer_net a) w else (success, []))
           in (Start_disconnect ret, w, 0, calls))
      | Start_disconnect ret \<Rightarrow>
          if sta_enable c then (Start_connect ret, w, 500, disconnect_sta w)
          else (Start_enable_retry ret, w, 0, [])
      | Start_connect ret \<Rightarrow>
          (let (r, calls) = connect_sta_request c (answer_net a) w
           in (Start_connected ret r, w, 0, calls))
      | Start_connected ret r \<Rightarrow>
          (let (sta_ret, calls, w1) = connect_sta_finish r w
           in (Start_enable_retry (if sta_ret \<noteq> success \<and> ret = success then sta_ret else ret),
               w1, 0, calls))
      | Start_enable_retry ret \<Rightarrow> (Start_returned ret, w\<lparr>sta_retry_enabled := True\<rparr>, 0, [])
      | Start_returned ret \<Rightarrow> (pc, w, 0, []))"

text \<open>The whole call with no event in between, and the calls it makes.\<close>

definition wifi_manager_start ::
    "app_config \<Rightarrow> (string \<Rightarrow> in_addr option) \<Rightarrow> net_ifs \<Rightarrow> (net_call \<Rightarrow> status) \<Rightarrow> u8 \<times> u8 \<times> u8
       \<Rightarrow> iface option \<Rightarrow> iface option \<Rightarrow> wifi_manager \<Rightarrow> status \<times> wifi_manager \<times> net_call list" where
  "wifi_manager_start c pton ifs net rand sap sta w0 =
     (let w = w0\<lparr>ap_iface := sap, sta_iface := sta\<rparr>;
          calls_mac = rotate_sta_mac c ifs net rand w;
          (ret, calls_ap) = (if ap_enable c then enable_ap c pton net w else (success, []));
          (ret', calls_sta, w1) =
            (if sta_enable c
             then (let (sta_ret, calls, w') = connect_sta c net w
                   in (if sta_ret \<noteq> success \<and> ret = success then sta_ret else ret,
                       disconnect_sta w @ calls, w'))
             else (ret, [], w))
      in (ret', w1\<lparr>sta_retry_enabled := True\<rparr>, calls_mac @ calls_ap @ calls_sta))"

definition wifi_start_accum ::
    "app_config \<Rightarrow> wifi_answers \<Rightarrow> wifi_start_pc \<times> wifi_manager \<times> net_call list
       \<Rightarrow> wifi_start_pc \<times> wifi_manager \<times> net_call list" where
  "wifi_start_accum c a s =
     (case s of (pc, w, calls) \<Rightarrow>
        (case wifi_start_step c a pc w of (pc', w', _, calls') \<Rightarrow> (pc', w', calls @ calls')))"

lemma wifi_start_uninterrupted:
  assumes "wifi_manager_start c (answer_pton a) (answer_ifs a) (answer_net a) (answer_random a)
      (answer_sap a) (answer_sta a) w0 = (ret, w, calls)"
  shows "(wifi_start_accum c a ^^ 7) (Start_ifaces, w0, []) = (Start_returned ret, w, calls)"
proof -
  let ?w = "w0\<lparr>ap_iface := answer_sap a, sta_iface := answer_sta a\<rparr>"
  let ?mac = "rotate_sta_mac c (answer_ifs a) (answer_net a) (answer_random a) ?w"
  obtain r1 ap where ap: "(if ap_enable c then enable_ap c (answer_pton a) (answer_net a) ?w
      else (success, [])) = (r1, ap)" by (metis prod.exhaust)
  obtain r calls1 where rq: "connect_sta_request c (answer_net a) ?w = (r, calls1)" by (metis prod.exhaust)
  obtain r2 calls2 w2 where fin: "connect_sta_finish r ?w = (r2, calls2, w2)" by (metis prod.exhaust)
  have sta: "connect_sta c (answer_net a) ?w = (r2, calls1 @ calls2, w2)"
    by (simp add: connect_sta_def rq fin)
  let ?f = "wifi_start_accum c a"
  have 1: "?f (Start_ifaces, w0, []) = (Start_mac, ?w, [])"
    by (simp add: wifi_start_accum_def wifi_start_step_def)
  have 2: "?f (Start_mac, ?w, []) = (Start_ap, ?w, ?mac)"
    by (simp add: wifi_start_accum_def wifi_start_step_def)
  have 3: "?f (Start_ap, ?w, ?mac) = (Start_disconnect r1, ?w, ?mac @ ap)"
    by (simp add: wifi_start_accum_def wifi_start_step_def ap)
  have seven: "(?f ^^ 7) x = ?f (?f (?f (?f (?f (?f (?f x))))))" for x
    by (simp add: numeral_eq_Suc)
  show ?thesis
  proof (cases "sta_enable c")
    case True
    have 4: "?f (Start_disconnect r1, ?w, cs) = (Start_connect r1, ?w, cs @ disconnect_sta ?w)" for cs
      using True by (simp add: wifi_start_accum_def wifi_start_step_def)
    have 5: "?f (Start_connect r1, ?w, cs) = (Start_connected r1 r, ?w, cs @ calls1)" for cs
      by (simp add: wifi_start_accum_def wifi_start_step_def rq)
    have 6: "?f (Start_connected r1 r, ?w, cs) =
        (Start_enable_retry (if r2 \<noteq> success \<and> r1 = success then r2 else r1), w2, cs @ calls2)" for cs
      by (simp add: wifi_start_accum_def wifi_start_step_def fin)
    have 7: "?f (Start_enable_retry x, v, cs) = (Start_returned x, v\<lparr>sta_retry_enabled := True\<rparr>, cs)" for x v cs
      by (simp add: wifi_start_accum_def wifi_start_step_def)
    show ?thesis using assms True ap sta unfolding seven 1 2 3 4 5 6 7 wifi_manager_start_def Let_def
      by simp
  next
    case False
    have 4: "?f (Start_disconnect r1, ?w, cs) = (Start_enable_retry r1, ?w, cs)" for cs
      using False by (simp add: wifi_start_accum_def wifi_start_step_def)
    have 5: "?f (Start_enable_retry x, v, cs) = (Start_returned x, v\<lparr>sta_retry_enabled := True\<rparr>, cs)" for x v cs
      by (simp add: wifi_start_accum_def wifi_start_step_def)
    have 6: "?f (Start_returned x, v, cs) = (Start_returned x, v, cs)" for x v cs
      by (simp add: wifi_start_accum_def wifi_start_step_def)
    show ?thesis using assms False ap unfolding seven 1 2 3 4 5 6 wifi_manager_start_def Let_def
      by simp
  qed
qed

section \<open>The threads\<close>

text \<open>
  The threads that use the station's flags, except the outbound client: the one that calls the
  handlers, the web server's thread when it collects a snapshot, the retry thread, and \<open>main\<close> in
  \<open>wifi_manager_start\<close>.
\<close>

record wifi_threads =
  handler_thread :: handler_pc
  asking_thread :: ready_pc
  retry_thread :: retry_pc
  start_thread :: wifi_start_pc

definition wifi_threads_start :: wifi_threads where
  "wifi_threads_start =
     \<lparr>handler_thread = Handler_idle, asking_thread = Ready_returned False, retry_thread = Retry_start,
      start_thread = Start_ifaces\<rparr>"

datatype wifi_run_event =
    Mgmt_event mgmt_event iface
  | Mgmt_turn net_ifs
  | Ask
  | Ask_turn net_ifs
  | Retry_turn "net_call \<Rightarrow> status"
  | Start_turn wifi_answers

text \<open>
  One step of one of them, and the calls into Zephyr it makes. Handlers run one after the other,
  and so do the snapshots.
\<close>

fun wifi_run_step ::
    "app_config \<Rightarrow> wifi_run_event \<Rightarrow> wifi_manager \<times> wifi_threads
       \<Rightarrow> (wifi_manager \<times> wifi_threads) \<times> net_call list" where
  "wifi_run_step c (Mgmt_event ev i) (w, ts) =
     ((w, if handler_thread ts = Handler_idle then ts\<lparr>handler_thread := Handler_entered ev i\<rparr> else ts), [])"
| "wifi_run_step c (Mgmt_turn ifs) (w, ts) =
     (case handler_step ifs (handler_thread ts) w of (pc, w1) \<Rightarrow> ((w1, ts\<lparr>handler_thread := pc\<rparr>), []))"
| "wifi_run_step c Ask (w, ts) =
     ((w, case asking_thread ts of
            Ready_returned _ \<Rightarrow> ts\<lparr>asking_thread := Ready_connected\<rparr> | _ \<Rightarrow> ts), [])"
| "wifi_run_step c (Ask_turn ifs) (w, ts) =
     (case ready_step ifs (asking_thread ts) w of (pc, w1) \<Rightarrow> ((w1, ts\<lparr>asking_thread := pc\<rparr>), []))"
| "wifi_run_step c (Retry_turn net) (w, ts) =
     (case retry_step c net (retry_thread ts) w of
        (pc, w1, _, calls) \<Rightarrow> ((w1, ts\<lparr>retry_thread := pc\<rparr>), calls))"
| "wifi_run_step c (Start_turn a) (w, ts) =
     (case wifi_start_step c a (start_thread ts) w of
        (pc, w1, _, calls) \<Rightarrow> ((w1, ts\<lparr>start_thread := pc\<rparr>), calls))"

end
