(* ===== verification/Wifi_Facts.thy ===== *)
theory Wifi_Facts
  imports Wifi
begin

text \<open>
  The properties of the Wi-Fi manager: the retry schedule and a race that ends it, the rotated
  address, and how start-up reports errors.
\<close>

section \<open>Uninterrupted calls\<close>

lemma handler_eight:
  "handler_to_end ifs pc w =
     (case handler_step ifs pc w of (pc, w) \<Rightarrow> case handler_step ifs pc w of (pc, w) \<Rightarrow>
      case handler_step ifs pc w of (pc, w) \<Rightarrow> case handler_step ifs pc w of (pc, w) \<Rightarrow>
      case handler_step ifs pc w of (pc, w) \<Rightarrow> case handler_step ifs pc w of (pc, w) \<Rightarrow>
      case handler_step ifs pc w of (pc, w) \<Rightarrow> handler_step ifs pc w)"
  by (simp add: handler_to_end_def numeral_eq_Suc split_beta)

lemma handler_marks_flags:
  "handler_to_end ifs (Handler_marking Mark_addr) w =
     (Handler_idle,
      if sta_dhcp_addr ifs w = None then w
      else w\<lparr>sta_connected := True, sta_has_addr := True, sta_ipv4_logged := True\<rparr>)"
  by (cases w) (simp add: handler_eight handler_step_def mark_step_def)

text \<open>What the handlers do when no other thread comes in between: they end, and the flags then are these.\<close>

lemma disconnect_handled:
  "sta_iface w = Some i \<Longrightarrow> wifi_event_handler ifs WIFI_DISCONNECT_RESULT i w =
     w\<lparr>sta_connected := False, sta_has_addr := False, sta_ipv4_logged := False,
       sta_connect_requested := False\<rparr>"
  by (simp add: wifi_event_handler_def wifi_event_case_def handler_eight handler_step_def)

lemma failure_handled:
  "sta_iface w = Some i \<Longrightarrow> status \<noteq> 0 \<Longrightarrow>
     wifi_event_handler ifs (WIFI_CONNECT_RESULT (Some status)) i w =
     w\<lparr>sta_connected := False, sta_has_addr := False, sta_ipv4_logged := False,
       sta_connect_requested := False\<rparr>"
  by (simp add: wifi_event_handler_def wifi_event_case_def handler_eight handler_step_def)

lemma connection_handled:
  assumes "sta_iface w = Some i"
  shows "wifi_event_handler ifs (WIFI_CONNECT_RESULT (Some 0)) i w =
    (if sta_dhcp_addr ifs w = None
     then w\<lparr>sta_connected := True, sta_connect_requested := False, sta_retry_backoff_s := 5\<rparr>
     else w\<lparr>sta_connected := True, sta_has_addr := True, sta_ipv4_logged := True,
            sta_connect_requested := False, sta_retry_backoff_s := 5\<rparr>)"
  using assms
  by (cases w) (simp add: wifi_event_handler_def wifi_event_case_def handler_eight handler_step_def
      mark_step_def sta_dhcp_addr_def)

lemma handler_ends: "fst (handler_to_end ifs (event_case ev i w) w) = Handler_idle"
  by (cases ev) (simp_all add: event_case_def wifi_event_case_def ipv4_event_case_def handler_eight
      handler_step_def mark_step_def)

lemma ready_uninterrupted:
  "fst (((\<lambda>(q, w). ready_step ifs q w) ^^ 9) (Ready_connected, w)) =
     Ready_returned (sta_connected w \<and> (sta_has_addr w \<or> sta_dhcp_addr ifs w \<noteq> None))"
  by (simp add: numeral_eq_Suc ready_step_def mark_step_def)

text \<open>Interface tables with one station interface that has a DHCP address.\<close>

definition demo_ifs :: net_ifs where
  "demo_ifs =
     \<lparr>unicast = (\<lambda>i. if i = 1 then Some [(False, (10, 0, 0, 1)), (True, (192, 168, 1, 7))] else None),
      gateway = (\<lambda>_. (192, 168, 1, 1)), link_addr = (\<lambda>_. Some [36, 10, 196, 1, 2, 3]),
      admin_up = (\<lambda>_. True)\<rparr>"

lemma retry_backoff_val:
  "unat b \<le> 60 \<Longrightarrow> unat (next_retry_backoff b) = min (2 * unat b) 60"
  by (auto simp: next_retry_backoff_def min_def word_le_nat_alt unat_word_ariths)

section \<open>The retry schedule\<close>

interpretation retry_backoff: doubling_backoff next_retry_backoff "\<lambda>b. unat b" 5 60
  by unfold_locales (simp_all add: retry_backoff_val)

text \<open>\<open>n\<close> steps of the retry thread with no event in between: the ms slept and the calls made.\<close>

definition retry_accum ::
    "app_config \<Rightarrow> (net_call \<Rightarrow> status) \<Rightarrow> retry_pc \<times> wifi_manager \<times> nat \<times> net_call list
       \<Rightarrow> retry_pc \<times> wifi_manager \<times> nat \<times> net_call list" where
  "retry_accum c net r =
     (case r of (pc, w, ms, calls) \<Rightarrow>
        (case retry_step c net pc w of (pc', w', ms', calls') \<Rightarrow> (pc', w', ms + ms', calls @ calls')))"

lemma retry_cycle:
  assumes "sta_iface w = Some i" and "length (sta_ssid c) \<noteq> 0"
    and "\<not> sta_connected w" and "\<not> sta_connect_requested w"
    and "isl (net (Request_connect i \<lparr>ssid = sta_ssid c, psk = sta_psk c,
           security = security_of (sta_psk c)\<rparr>))"
  shows "(retry_accum c net ^^ 4) (Retry_check, w, ms, calls) =
    (Retry_check, w\<lparr>sta_connect_requested := False,
       sta_retry_backoff_s := next_retry_backoff (sta_retry_backoff_s w)\<rparr>,
     ms + 1000 * unat (sta_retry_backoff_s w) + 500,
     calls @ [Request_disconnect i, Request_connect i \<lparr>ssid = sta_ssid c, psk = sta_psk c,
           security = security_of (sta_psk c)\<rparr>])"
  using assms
  by (auto simp: numeral_eq_Suc retry_accum_def retry_step_def connect_sta_request_def
      connect_sta_finish_def disconnect_sta_def Let_def isl_def)

text \<open>
  C28: A station that cannot connect is retried for ever, ever more slowly. While no event
  arrives and every request is refused, each round of the retry thread asks the driver to
  disconnect and then to connect, and the wait before round \<open>n\<close> (from 0) is
  \<open>min (5 * 2 ^ n) 60\<close> seconds when the last successful connection reset it to 5.
\<close>

theorem retry_schedule:
  assumes "sta_iface w = Some i" and "length (sta_ssid c) \<noteq> 0"
    and "\<not> sta_connected w" and "\<not> sta_connect_requested w" and "sta_retry_backoff_s w = 5"
    and "isl (net (Request_connect i \<lparr>ssid = sta_ssid c, psk = sta_psk c,
           security = security_of (sta_psk c)\<rparr>))"
  shows "\<exists>w'. (retry_accum c net ^^ (4 * n)) (Retry_check, w, 0, []) =
    (Retry_check, w', (\<Sum>k < n. 1000 * min (5 * 2 ^ k) 60 + 500),
     concat (replicate n [Request_disconnect i, Request_connect i \<lparr>ssid = sta_ssid c,
       psk = sta_psk c, security = security_of (sta_psk c)\<rparr>])) \<and>
    unat (sta_retry_backoff_s w') = min (5 * 2 ^ n) 60"
proof -
  let ?calls = "[Request_disconnect i, Request_connect i \<lparr>ssid = sta_ssid c,
       psk = sta_psk c, security = security_of (sta_psk c)\<rparr>]"
  have "\<exists>w'. (retry_accum c net ^^ (4 * n)) (Retry_check, w, 0, []) =
      (Retry_check, w', (\<Sum>k < n. 1000 * min (5 * 2 ^ k) 60 + 500), concat (replicate n ?calls)) \<and>
      sta_retry_backoff_s w' = (next_retry_backoff ^^ n) 5 \<and> sta_iface w' = Some i \<and>
      \<not> sta_connected w' \<and> \<not> sta_connect_requested w'"
  proof (induction n)
    case 0
    then show ?case using assms by simp
  next
    case (Suc n)
    then obtain w' where w': "(retry_accum c net ^^ (4 * n)) (Retry_check, w, 0, []) =
        (Retry_check, w', (\<Sum>k < n. 1000 * min (5 * 2 ^ k) 60 + 500), concat (replicate n ?calls))"
        "sta_retry_backoff_s w' = (next_retry_backoff ^^ n) 5" "sta_iface w' = Some i"
        "\<not> sta_connected w'" "\<not> sta_connect_requested w'" by blast
    have steps: "(retry_accum c net ^^ (4 * Suc n)) x =
        (retry_accum c net ^^ 4) ((retry_accum c net ^^ (4 * n)) x)" for x
      by (simp only: mult_Suc_right funpow_add comp_apply)
    have rep: "concat (replicate n ?calls) @ ?calls = concat (replicate (Suc n) ?calls)"
      by (induction n) simp_all
    have val: "unat (sta_retry_backoff_s w') = min (5 * 2 ^ n) 60"
      using retry_backoff.iterate_val [of n] w'(2) by (simp add: mult.commute)
    show ?case
      unfolding steps w'(1) retry_cycle [where net = net, OF w'(3) assms(2) w'(4,5) assms(6)] rep
      using w'(2-5) val by simp
  qed
  then show ?thesis using retry_backoff.iterate_val [of n] by (auto simp: mult.commute)
qed

definition demo_sta_config :: app_config where
  "demo_sta_config = default_config\<lparr>sta_ssid := ''boat'', sta_psk := ''secret''\<rparr>"

definition demo_wifi :: wifi_manager where
  "demo_wifi = wifi_storage\<lparr>ap_iface := Some 0, sta_iface := Some 1, sta_retry_enabled := True\<rparr>"

theorem retry_schedule_witness:
  "\<exists>w'. (retry_accum demo_sta_config (\<lambda>_. failure EIO) ^^ (4 * 5)) (Retry_check, demo_wifi, 0, []) =
    (Retry_check, w', (\<Sum>k < 5. 1000 * min (5 * 2 ^ k) 60 + 500),
     concat (replicate 5 [Request_disconnect 1, Request_connect 1 \<lparr>ssid = sta_ssid demo_sta_config,
       psk = sta_psk demo_sta_config, security = security_of (sta_psk demo_sta_config)\<rparr>])) \<and>
    unat (sta_retry_backoff_s w') = min (5 * 2 ^ 5) 60"
  by (rule retry_schedule) (simp_all add: demo_wifi_def wifi_storage_def demo_sta_config_def)

text \<open>
  C40: A refused connection can stop the retries for good. \<open>connect_sta\<close> sets
  \<open>sta_connect_requested\<close> only after the request has returned. If the driver's failure result
  is handled in between, the handler clears the flag first and \<open>connect_sta\<close> sets it
  afterwards: the station is not connected, nothing is pending, and the retry thread makes no
  request any more, however long it runs, unless another station event arrives.
\<close>

theorem retry_lost_after_race:
  assumes "sta_iface w = Some i" and "length (sta_ssid c) \<noteq> 0"
    and "net (Request_connect i \<lparr>ssid = sta_ssid c, psk = sta_psk c,
           security = security_of (sta_psk c)\<rparr>) = success"
    and "status \<noteq> 0"
    and "retry_step c net Retry_request w = (pc, w1, ms, calls)"
    and "retry_step c net pc (wifi_event_handler ifs (WIFI_CONNECT_RESULT (Some status)) i w1) =
           (pc', w2, ms', calls')"
  shows "\<not> sta_connected w2 \<and> sta_connect_requested w2 \<and>
         (retry_accum c net ^^ n) (pc', w2, 0, []) = (Retry_check, w2, 1000 * n, [])"
proof -
  have one: "pc = Retry_finish (Connect_requested success)" "w1 = w"
    using assms(1-3,5) by (auto simp: retry_step_def connect_sta_request_def Let_def)
  then have two: "pc' = Retry_check" "\<not> sta_connected w2" "sta_connect_requested w2"
    using assms(1,4,6)
    by (auto simp: retry_step_def connect_sta_finish_def failure_handled Let_def)
  have "(retry_accum c net ^^ n) (Retry_check, w2, 0, []) = (Retry_check, w2, 1000 * n, [])"
    by (induction n) (simp_all add: retry_accum_def retry_step_def two)
  then show ?thesis using two by simp
qed

theorem retry_lost_after_race_witness:
  "let (pc, w1, ms, calls) = retry_step demo_sta_config (\<lambda>_. success) Retry_request demo_wifi;
       (pc', w2, ms', calls') = retry_step demo_sta_config (\<lambda>_. success) pc
         (wifi_event_handler demo_ifs (WIFI_CONNECT_RESULT (Some 1)) 1 w1)
   in (retry_accum demo_sta_config (\<lambda>_. success) ^^ 3600) (pc', w2, 0, []) =
        (Retry_check, w2, 3600000, [])"
proof -
  have "sta_iface demo_wifi = Some 1" "length (sta_ssid demo_sta_config) \<noteq> 0"
    by (simp_all add: demo_wifi_def demo_sta_config_def)
  note race = retry_lost_after_race [where net = "\<lambda>_. success" and status = 1 and n = 3600
      and ifs = demo_ifs, OF this refl]
  obtain pc w1 ms calls where 1: "retry_step demo_sta_config (\<lambda>_. success) Retry_request demo_wifi =
      (pc, w1, ms, calls)" by (metis prod.exhaust)
  obtain pc' w2 ms' calls' where 2: "retry_step demo_sta_config (\<lambda>_. success) pc
      (wifi_event_handler demo_ifs (WIFI_CONNECT_RESULT (Some 1)) 1 w1) = (pc', w2, ms', calls')"
    by (metis prod.exhaust)
  have "(1000 :: nat) * 3600 = 3600000" by simp
  then show ?thesis using race [OF _ 1 2] by (simp only: 1 2 Let_def prod.case)
qed

section \<open>Addresses\<close>

text \<open>
  C37: The rotated MAC address is a valid private one. Of a six-byte address it keeps the
  second and third byte and the upper six bits of the first, puts random bytes in the last
  three places, clears the multicast bit and sets the locally-administered bit.
\<close>

theorem rotated_mac_private:
  assumes "mac = [m0, m1, m2, m3, m4, m5]"
  shows "\<exists>b0. rotated_mac mac (r0, r1, r2) = [b0, m1, m2, r0, r1, r2] \<and>
    \<not> bit b0 0 \<and> bit b0 1 \<and> (\<forall>k. 2 \<le> k \<and> k < 8 \<longrightarrow> bit b0 k = bit m0 k)"
proof -
  have "rotated_mac mac (r0, r1, r2) = [or (and m0 0xFC) 0x02, m1, m2, r0, r1, r2]"
    by (simp add: assms rotated_mac_def Let_def numeral_eq_Suc)
  moreover have "bit (0xFC :: u8) k" if "2 \<le> k" "k < 8" for k
  proof -
    have "k \<in> {2, 3, 4, 5, 6, 7}" using that by auto
    then show ?thesis by (elim insertE) simp_all
  qed
  moreover have "\<not> bit (0x02 :: u8) k" if "2 \<le> k" "k < 8" for k
  proof -
    have "k \<in> {2, 3, 4, 5, 6, 7}" using that by auto
    then show ?thesis by (elim insertE) simp_all
  qed
  ultimately show ?thesis by (intro exI [of _ "or (and m0 0xFC) 0x02"]) (auto simp: bit_simps)
qed

theorem rotated_mac_private_witness:
  "\<exists>b0. rotated_mac [0x25, 10, 196, 1, 2, 3] (7, 8, 9) = [b0, 10, 196, 7, 8, 9] \<and>
    \<not> bit b0 0 \<and> bit b0 1 \<and> (\<forall>k. 2 \<le> k \<and> k < 8 \<longrightarrow> bit b0 k = bit (0x25 :: u8) k)"
  by (rule rotated_mac_private [OF refl])

section \<open>Start-up\<close>

text \<open>
  C33: Start-up tries everything and reports the first error. \<open>wifi_manager_start\<close> returns the
  access point's error if that is enabled and fails, else the station's, else 0; a failing
  access point does not keep the station from being asked to connect; and whatever fails, the
  retry thread is let loose.
\<close>

theorem wifi_start_reports:
  "let (ret, w, calls) = wifi_manager_start c pton ifs net rand sap sta w0;
       ap_ret = (if ap_enable c then fst (enable_ap c pton net (w0\<lparr>ap_iface := sap, sta_iface := sta\<rparr>))
                 else success);
       sta_request = \<lparr>ssid = sta_ssid c, psk = sta_psk c, security = security_of (sta_psk c)\<rparr>;
       sta_ret = (case sta of None \<Rightarrow> failure ENODEV
                  | Some i \<Rightarrow> if sta_ssid c = [] then success else net (Request_connect i sta_request))
   in ret = (if ap_ret \<noteq> success then ap_ret else if sta_enable c then sta_ret else success) \<and>
      sta_retry_enabled w \<and>
      (sta_enable c \<and> sta_ssid c \<noteq> [] \<and> sta \<noteq> None \<longrightarrow>
         Request_connect (the sta) sta_request \<in> set calls)"
  by (auto simp: wifi_manager_start_def connect_sta_def connect_sta_request_def
      connect_sta_finish_def Let_def split_beta split: option.split sum.split)

theorem wifi_start_reports_witness:
  "fst (wifi_manager_start demo_sta_config (\<lambda>_. None) demo_ifs (\<lambda>_. success) (7, 8, 9)
      (Some 0) (Some 1) wifi_storage) = failure EINVAL \<and>
   Request_connect 1 \<lparr>ssid = ''boat'', psk = ''secret'', security = WIFI_SECURITY_TYPE_PSK\<rparr> \<in>
     set (snd (snd (wifi_manager_start demo_sta_config (\<lambda>_. None) demo_ifs (\<lambda>_. success) (7, 8, 9)
      (Some 0) (Some 1) wifi_storage)))"
  using wifi_start_reports [of demo_sta_config "\<lambda>_. None" demo_ifs "\<lambda>_. success" "(7, 8, 9)" "Some 0"
      "Some 1" wifi_storage]
  by (simp add: split_beta Let_def demo_sta_config_def default_config_def enable_ap_def
      start_dhcp_server_def security_of_def)

end
