(* ===== verification/Client.thy ===== *)
theory Client
  imports Wifi Session
begin

text \<open>
  \<open>src/tcp_nmea_client.c\<close> and \<open>src/tcp_nmea_client.h\<close>: the outbound client. Its thread finds the
  upstream server, connects, runs a session, and starts again with a growing delay. The answers
  of the socket calls are arguments; the calls that change a descriptor are outputs.
\<close>

section \<open>Connecting\<close>

datatype sock_call =
    Sock_close int
  | Sock_set_flags int u32

text \<open>
  \<open>connect_server\<close>: \<open>Inr fd\<close> is a descriptor, \<open>Inl e\<close> stands for \<open>-errno\<close>. \<open>flags\<close> is what
  \<open>F_GETFL\<close> answers and \<open>nonblock\<close> the value of \<open>ZVFS_O_NONBLOCK\<close>.
\<close>

definition connect_server ::
    "u32 \<Rightarrow> errno + nat \<Rightarrow> status \<Rightarrow> u32 \<Rightarrow> (errno + int) \<times> sock_call list" where
  "connect_server nonblock socket connect flags =
     (case socket of
        Inl e \<Rightarrow> (Inl e, [])
      | Inr fd \<Rightarrow>
          (case connect of
             Inl e \<Rightarrow> (Inl e, [Sock_close (int fd)])
           | Inr _ \<Rightarrow> (Inr (int fd), [Sock_set_flags (int fd) (or flags nonblock)])))"

text \<open>
  \<open>get_tcp_nmea_server_host\<close>: the question to the Wi-Fi manager it is in, or the host, if it is
  known, and the seconds the call slept. \<open>pton\<close> is \<open>net_addr_pton\<close>.
\<close>

datatype host_pc =
    Host_ready ready_pc
  | Host_gateway gateway_pc
  | Host_returned "in_addr option" nat

definition host_call :: "app_config \<Rightarrow> host_pc" where
  "host_call c =
     (if 0 < length (tcp_nmea_client_host c) then Host_ready Ready_connected
      else Host_gateway (gateway_call False))"

definition host_step ::
    "app_config \<Rightarrow> (string \<Rightarrow> in_addr option) \<Rightarrow> net_ifs \<Rightarrow> host_pc \<Rightarrow> wifi_manager
       \<Rightarrow> host_pc \<times> wifi_manager" where
  "host_step c pton ifs pc w =
     (case pc of
        Host_ready q \<Rightarrow>
          (case ready_step ifs q w of
             (Ready_returned ready, w1) \<Rightarrow>
               (if \<not> ready then Host_returned None 0
                else (case pton (tcp_nmea_client_host c) of
                        None \<Rightarrow> Host_returned None 30
                      | Some host \<Rightarrow> Host_returned (Some host) 0), w1)
           | (q1, w1) \<Rightarrow> (Host_ready q1, w1))
      | Host_gateway g \<Rightarrow>
          (case gateway_step ifs g w of
             (Gateway_returned ok gw, w1) \<Rightarrow> (Host_returned (if ok then gw else None) 0, w1)
           | (g1, w1) \<Rightarrow> (Host_gateway g1, w1))
      | Host_returned host slept \<Rightarrow> (pc, w))"

section \<open>The client thread\<close>

text \<open>
  Where the thread stands. In \<open>Outbound_asking\<close> it is inside \<open>get_tcp_nmea_server_host\<close>, in
  \<open>Outbound_in_session\<close> inside \<open>tcp_nmea_session_run\<close>.
\<close>

datatype outbound_pc =
    Outbound_none
  | Outbound_host
  | Outbound_asking host_pc
  | Outbound_led_on in_addr
  | Outbound_connect in_addr
  | Outbound_led_off int
  | Outbound_call int
  | Outbound_in_session
  | Outbound_led_again

text \<open>The static \<open>started\<close>, and the locals \<open>backoff_s\<close> and \<open>wait_ticks\<close> of the thread.\<close>

record tcp_client =
  client_started :: bool
  outbound_thread :: outbound_pc
  backoff_s :: u32
  wait_ticks :: u32

definition client_storage :: tcp_client where
  "client_storage =
     \<lparr>client_started = False, outbound_thread = Outbound_none, backoff_s = 1, wait_ticks = 0\<rparr>"

definition next_backoff :: "u32 \<Rightarrow> u32" where
  "next_backoff b = min (b * 2) 30"

text \<open>What a step may need: interface tables and address parser, and the socket answers.\<close>

record client_input =
  in_pton :: "string \<Rightarrow> in_addr option"
  in_ifs :: net_ifs
  in_nonblock :: u32
  in_socket :: "errno + nat"
  in_connect :: status
  in_flags :: u32

text \<open>What a step does outside the client's own state.\<close>

datatype client_effect =
    No_effect
  | Led_connecting bool
  | Sockets "sock_call list"
  | Start_session int

text \<open>
  One step of \<open>client_thread\<close>. The result: the client, the Wi-Fi manager, the effect on other
  components, and the seconds slept at the end of the step.
\<close>

definition client_step ::
    "app_config \<Rightarrow> client_input \<Rightarrow> tcp_client \<times> wifi_manager
       \<Rightarrow> (tcp_client \<times> wifi_manager) \<times> client_effect \<times> nat" where
  "client_step c inp s =
     (let (cl, w) = s
      in case outbound_thread cl of
        Outbound_host \<Rightarrow> ((cl\<lparr>outbound_thread := Outbound_asking (host_call c)\<rparr>, w), No_effect, 0)
      | Outbound_asking h \<Rightarrow>
          (case host_step c (in_pton inp) (in_ifs inp) h w of
             (Host_returned (Some host) slept, w1) \<Rightarrow>
               ((cl\<lparr>outbound_thread := Outbound_led_on host\<rparr>, w1), No_effect, slept)
           | (Host_returned None slept, w1) \<Rightarrow>
               ((cl\<lparr>outbound_thread := Outbound_host, wait_ticks := wait_ticks cl + 1\<rparr>, w1),
                No_effect, slept + 2)
           | (h1, w1) \<Rightarrow> ((cl\<lparr>outbound_thread := Outbound_asking h1\<rparr>, w1), No_effect, 0))
      | Outbound_led_on host \<Rightarrow>
          ((cl\<lparr>outbound_thread := Outbound_connect host\<rparr>, w), Led_connecting True, 0)
      | Outbound_connect host \<Rightarrow>
          (case connect_server (in_nonblock inp) (in_socket inp) (in_connect inp) (in_flags inp) of
             (Inl e, calls) \<Rightarrow>
               ((cl\<lparr>outbound_thread := Outbound_host, wait_ticks := 0,
                    backoff_s := next_backoff (backoff_s cl)\<rparr>, w),
                Sockets calls, unat (backoff_s cl))
           | (Inr fd, calls) \<Rightarrow>
               ((cl\<lparr>outbound_thread := Outbound_led_off fd\<rparr>, w), Sockets calls, 0))
      | Outbound_led_off fd \<Rightarrow>
          ((cl\<lparr>outbound_thread := Outbound_call fd, backoff_s := 1\<rparr>, w), Led_connecting False, 0)
      | Outbound_call fd \<Rightarrow>
          ((cl\<lparr>outbound_thread := Outbound_in_session\<rparr>, w), Start_session fd, 0)
      | Outbound_led_again \<Rightarrow>
          ((cl\<lparr>outbound_thread := Outbound_host, wait_ticks := 0,
               backoff_s := next_backoff (backoff_s cl)\<rparr>, w),
           Led_connecting True, unat (backoff_s cl))
      | _ \<Rightarrow> ((cl, w), No_effect, 0))"

text \<open>The return of \<open>tcp_nmea_session_run\<close>.\<close>

definition client_session_returned :: "tcp_client \<Rightarrow> tcp_client" where
  "client_session_returned cl = cl\<lparr>outbound_thread := Outbound_led_again\<rparr>"

text \<open>The second component says whether the thread was created.\<close>

definition tcp_nmea_client_start :: "app_config \<Rightarrow> tcp_client \<Rightarrow> status \<times> bool \<times> tcp_client" where
  "tcp_nmea_client_start c cl =
     (if \<not> tcp_nmea_client_enable c then (success, False, cl)
      else if \<not> client_started cl
      then (success, True,
            cl\<lparr>client_started := True, outbound_thread := Outbound_host, backoff_s := 1,
               wait_ticks := 0\<rparr>)
      else (success, False, cl))"

section \<open>The back-off\<close>

lemma next_backoff_val: "unat b \<le> 30 \<Longrightarrow> unat (next_backoff b) = min (2 * unat b) 30"
  by (auto simp: next_backoff_def min_def word_le_nat_alt unat_word_ariths)

interpretation client_backoff: doubling_backoff next_backoff "\<lambda>b. unat b" 1 30
  by unfold_locales (simp_all add: next_backoff_val)

end
