(* ===== verification/Client_Facts.thy ===== *)
theory Client_Facts
  imports Client
begin

text \<open>The outbound client over time: how long it waits, and what it does to its sockets.\<close>

section \<open>Runs of the client's thread\<close>

text \<open>
  A run is a list of steps of the thread, returns of its sessions and changes that other threads
  make to the Wi-Fi manager. A return is only possible while the thread is in a session.
\<close>

datatype client_event = Client_step client_input | Client_returned | Wifi_changed wifi_manager

definition client_event_step ::
    "app_config \<Rightarrow> client_event \<Rightarrow> tcp_client \<times> wifi_manager
       \<Rightarrow> (tcp_client \<times> wifi_manager) \<times> client_effect \<times> nat" where
  "client_event_step c ev s =
     (case ev of
        Client_step inp \<Rightarrow> client_step c inp s
      | Client_returned \<Rightarrow>
          (if outbound_thread (fst s) = Outbound_in_session
           then ((client_session_returned (fst s), snd s), No_effect, 0)
           else (s, No_effect, 0))
      | Wifi_changed w \<Rightarrow> ((fst s, w), No_effect, 0))"

text \<open>
  The back-off sleeps of a run since the last successful connection: \<open>note_delay\<close> is what one
  event that took the thread from \<open>pc\<close> to \<open>pc'\<close> and slept \<open>secs\<close> seconds does to them.
\<close>

definition note_delay ::
    "client_event \<Rightarrow> outbound_pc \<Rightarrow> outbound_pc \<Rightarrow> nat \<Rightarrow> nat list \<Rightarrow> nat list" where
  "note_delay ev pc pc' secs delays =
     (case (ev, pc) of
        (Client_step _, Outbound_led_off _) \<Rightarrow> []
      | (Client_step _, Outbound_connect _) \<Rightarrow> if pc' = Outbound_host then delays @ [secs] else delays
      | (Client_step _, Outbound_led_again) \<Rightarrow> delays @ [secs]
      | _ \<Rightarrow> delays)"

fun client_delays ::
    "app_config \<Rightarrow> client_event list \<Rightarrow> tcp_client \<times> wifi_manager \<Rightarrow> nat list \<Rightarrow> nat list" where
  "client_delays c [] s delays = delays"
| "client_delays c (ev # es) s delays =
     (case client_event_step c ev s of
        (s', eff, secs) \<Rightarrow>
          client_delays c es s'
            (note_delay ev (outbound_thread (fst s)) (outbound_thread (fst s')) secs delays))"

definition delays_ok :: "tcp_client \<Rightarrow> nat list \<Rightarrow> bool" where
  "delays_ok cl delays \<longleftrightarrow>
     backoff_s cl = (next_backoff ^^ length delays) 1 \<and>
     delays = map (\<lambda>k. min (2 ^ k) 30) [0..<length delays]"

lemma delays_grow:
  assumes "delays_ok cl delays"
  shows "delays_ok (cl\<lparr>outbound_thread := pc, wait_ticks := t, backoff_s := next_backoff (backoff_s cl)\<rparr>)
    (delays @ [unat (backoff_s cl)])"
proof -
  have "unat (backoff_s cl) = min (2 ^ length delays) 30"
    using client_backoff.iterate_val [of "length delays"] assms by (simp add: delays_ok_def)
  then show ?thesis using assms by (simp add: delays_ok_def)
qed

lemma step_delays:
  assumes "client_event_step c ev s = (s', eff, secs)" and "delays_ok (fst s) delays"
  shows "delays_ok (fst s')
    (note_delay ev (outbound_thread (fst s)) (outbound_thread (fst s')) secs delays)"
proof (cases ev)
  case Client_returned
  then show ?thesis using assms
    by (auto simp: client_event_step_def client_session_returned_def delays_ok_def note_delay_def
        split: if_splits)
next
  case (Wifi_changed w)
  then show ?thesis using assms by (auto simp: client_event_step_def note_delay_def)
next
  case (Client_step inp)
  then show ?thesis using assms delays_grow [OF assms(2)]
    by (cases "outbound_thread (fst s)")
      (auto simp: client_event_step_def client_step_def delays_ok_def note_delay_def
        split: prod.splits option.splits sum.splits host_pc.splits)
qed

lemma run_delays: "delays_ok (fst s) delays \<Longrightarrow> \<exists>cl. delays_ok cl (client_delays c es s delays)"
proof (induction es arbitrary: s delays)
  case Nil
  then show ?case by auto
next
  case (Cons ev es)
  obtain s' eff secs where st: "client_event_step c ev s = (s', eff, secs)" by (metis prod.exhaust)
  show ?case using Cons.IH [OF step_delays [OF st Cons.prems]] st by simp
qed

text \<open>
  C12: The outbound client backs off. Whatever happens, the waits since the last successful
  connection are 1, 2, 4, 8, 16, 30, 30, .. seconds: each failed attempt to connect and each lost
  session doubles the wait up to half a minute, and a successful connection starts again at 1.
\<close>

theorem client_backoff_schedule:
  "client_delays c es (snd (snd (tcp_nmea_client_start c client_storage)), w) [] =
     map (\<lambda>k. min (2 ^ k) 30)
       [0..<length (client_delays c es (snd (snd (tcp_nmea_client_start c client_storage)), w) [])]"
proof -
  have "delays_ok (fst (snd (snd (tcp_nmea_client_start c client_storage)), w)) []"
    by (simp add: delays_ok_def tcp_nmea_client_start_def client_storage_def)
  then show ?thesis using run_delays [of _ "[]" c es] by (fastforce simp: delays_ok_def)
qed

section \<open>Connecting\<close>

lemma or_keeps: "and (or a b) b = (b :: u32)" "and (or a b) a = (a :: u32)"
  by (auto simp: bit_eq_iff bit_simps)

text \<open>
  A failed connection leaves nothing open. \<open>connect_server\<close> closes its socket exactly when
  \<open>connect\<close> fails, and otherwise makes the descriptor it returns non-blocking while keeping the
  flags it had.
\<close>

theorem connect_server_spec:
  "case connect_server nonblock socket connect flags of
     (Inl e, calls) \<Rightarrow>
       (socket = Inl e \<and> calls = []) \<or>
       (\<exists>fd. socket = Inr fd \<and> connect = Inl e \<and> calls = [Sock_close (int fd)])
   | (Inr fd, calls) \<Rightarrow>
       socket = Inr (nat fd) \<and> 0 \<le> fd \<and> connect = success \<and>
       (\<exists>new. calls = [Sock_set_flags fd new] \<and> and new nonblock = nonblock \<and> and new flags = flags)"
  by (auto simp: connect_server_def or_keeps split: sum.split)

section \<open>Asking for the server\<close>

text \<open>
  Which server the client connects to, when no other thread comes in between: with a host
  configured that one, once the station is ready, and the call sleeps half a minute when it is not
  an IPv4 address; with none the gateway of the station's interface, once that is known.
\<close>

theorem tcp_nmea_server_host_spec:
  "let ready = sta_connected w \<and> (sta_has_addr w \<or> sta_dhcp_addr ifs w \<noteq> None);
       gw = gateway ifs (the (sta_iface w))
   in fst (((\<lambda>(h, w). host_step c pton ifs h w) ^^ 10) (host_call c, w)) =
      (if \<not> ready then Host_returned None 0
       else if tcp_nmea_client_host c \<noteq> []
       then Host_returned (pton (tcp_nmea_client_host c))
              (if pton (tcp_nmea_client_host c) = None then 30 else 0)
       else Host_returned (if addr_unspecified gw then None else Some gw) 0)"
  by (cases w) (auto simp: numeral_eq_Suc host_call_def host_step_def gateway_call_def
    gateway_step_def ready_step_def mark_step_def sta_dhcp_addr_def Let_def split: option.split)

end
