(* ===== verification/Server.thy ===== *)
theory Server
  imports Config Sockets
begin

text \<open>
  \<open>src/tcp_nmea_server.c\<close> and \<open>src/tcp_nmea_server.h\<close>: the TCP server. Its thread sets up the
  listening socket and accepts connections; each gets a slot of the fixed array \<open>clients\<close> and a
  thread, which runs \<open>tcp_nmea_session_run\<close> (theory \<open>Session\<close>) and then frees the slot. The
  critical sections under \<open>clients_lock\<close> are single steps.
\<close>

section \<open>State\<close>

text \<open>
  Where the thread of a slot stands. \<open>Client_exiting\<close>: the slot has been freed and the thread
  still has to log and to return, on the stack inside the slot.
\<close>

datatype client_pc =
    Client_none
  | Client_in_session
  | Client_fd_reset
  | Client_closing
  | Client_exiting

record client_slot =
  client_fd :: int
  client_active :: bool
  client_thread :: client_pc

datatype server_pc =
    Server_none
  | Server_setup
  | Server_accept
  | Server_alloc int
  | Server_spawn int nat
  | Server_stopped

record tcp_server =
  listen_fd :: int
  server_started :: bool
  server_thread :: server_pc
  clients :: "client_slot list"

definition server_storage :: "app_config \<Rightarrow> tcp_server" where
  "server_storage c =
     \<lparr>listen_fd = - 1, server_started = False, server_thread = Server_none,
      clients = replicate (tcp_nmea_server_max_clients c)
        \<lparr>client_fd = 0, client_active = False, client_thread = Client_none\<rparr>\<rparr>"

section \<open>Slots\<close>

text \<open>\<open>close_client\<close>: the descriptors it closes, and the slot after it.\<close>

definition close_client :: "client_slot \<Rightarrow> int list \<times> client_slot" where
  "close_client client =
     (let (closes, client1) =
        (if 0 \<le> client_fd client then ([client_fd client], client\<lparr>client_fd := - 1\<rparr>)
         else ([], client))
      in (closes, client1\<lparr>client_active := False\<rparr>))"

definition claim_client :: "client_slot \<Rightarrow> client_slot" where
  "claim_client client = client\<lparr>client_fd := - 1, client_active := True\<rparr>"

definition alloc_client :: "client_slot list \<Rightarrow> nat option \<times> client_slot list" where
  "alloc_client cs =
     (case first_free client_active 0 cs of
        None \<Rightarrow> (None, cs)
      | Some i \<Rightarrow> (Some i, cs[i := claim_client (cs ! i)]))"

text \<open>
  The thread of a slot after \<open>tcp_nmea_session_run\<close> has returned: it forgets the descriptor,
  which the session has closed, frees the slot, and ends.
\<close>

definition client_thread_step :: "client_slot \<Rightarrow> int list \<times> client_slot" where
  "client_thread_step client =
     (case client_thread client of
        Client_fd_reset \<Rightarrow> ([], client\<lparr>client_fd := - 1, client_thread := Client_closing\<rparr>)
      | Client_closing \<Rightarrow>
          (case close_client client of
             (closes, client1) \<Rightarrow> (closes, client1\<lparr>client_thread := Client_exiting\<rparr>))
      | Client_exiting \<Rightarrow> ([], client\<lparr>client_thread := Client_none\<rparr>)
      | _ \<Rightarrow> ([], client))"

section \<open>The server thread\<close>

text \<open>
  The calls up to the accept loop: \<open>socket\<close>, \<open>bind\<close> and \<open>listen\<close> answer \<open>Inl\<close> when they return
  a negative number. The result is the descriptor to accept on, if any, and those closed.
  \<open>listen_fd\<close> is the static variable after the calls.
\<close>

definition server_listen ::
    "errno + nat \<Rightarrow> status \<Rightarrow> status \<Rightarrow> int \<times> bool \<times> int list" where
  "server_listen socket bind listen =
     (case socket of
        Inl e \<Rightarrow> (- 1, False, [])
      | Inr fd \<Rightarrow>
          (case bind of
             Inl e \<Rightarrow> (int fd, False, [int fd])
           | Inr _ \<Rightarrow>
               (case listen of
                  Inl e \<Rightarrow> (int fd, False, [int fd])
                | Inr _ \<Rightarrow> (int fd, True, []))))"

text \<open>
  One step of the server thread. \<open>accept\<close> is the answer of \<open>zsock_accept\<close>; after a failed one
  the thread sleeps 1 s and tries again. The second component lists the descriptors closed, the
  third the slot and descriptor a client thread is created for.
\<close>

datatype server_input =
    Setup_answers "errno + nat" status status
  | Accept_answer "errno + nat"
  | No_answer

definition server_step ::
    "server_input \<Rightarrow> tcp_server \<Rightarrow> tcp_server \<times> int list \<times> (nat \<times> int) option" where
  "server_step input s =
     (case (server_thread s, input) of
        (Server_setup, Setup_answers socket bind listen) \<Rightarrow>
          (let (fd, ok, closes) = server_listen socket bind listen
           in (s\<lparr>listen_fd := fd, server_thread := if ok then Server_accept else Server_stopped\<rparr>,
               closes, None))
      | (Server_accept, Accept_answer (Inl e)) \<Rightarrow> (s, [], None)
      | (Server_accept, Accept_answer (Inr fd)) \<Rightarrow>
          (s\<lparr>server_thread := Server_alloc (int fd)\<rparr>, [], None)
      | (Server_alloc fd, _) \<Rightarrow>
          (case alloc_client (clients s) of
             (None, _) \<Rightarrow> (s\<lparr>server_thread := Server_accept\<rparr>, [fd], None)
           | (Some i, cs) \<Rightarrow> (s\<lparr>clients := cs, server_thread := Server_spawn fd i\<rparr>, [], None))
      | (Server_spawn fd i, _) \<Rightarrow>
          (s\<lparr>clients := (clients s)[i := (clients s ! i)
               \<lparr>client_fd := fd, client_thread := Client_in_session\<rparr>],
             server_thread := Server_accept\<rparr>, [], Some (i, fd))
      | _ \<Rightarrow> (s, [], None))"

section \<open>Start and statistics\<close>

text \<open>The second component says whether the server thread was created.\<close>

definition tcp_nmea_server_start :: "app_config \<Rightarrow> tcp_server \<Rightarrow> status \<times> bool \<times> tcp_server" where
  "tcp_nmea_server_start c s =
     (if \<not> tcp_nmea_server_enable c then (success, False, s)
      else if \<not> server_started s
      then (success, True,
            s\<lparr>clients := map (\<lambda>cl. cl\<lparr>client_fd := - 1\<rparr>) (clients s), server_started := True,
              server_thread := Server_setup\<rparr>)
      else (success, False, s))"

record tcp_nmea_server_stats =
  active_clients :: u32
  max_clients :: u32

text \<open>The loop that counts the active slots.\<close>

fun count_active :: "client_slot list \<Rightarrow> u32 \<Rightarrow> u32" where
  "count_active [] active = active"
| "count_active (cl # cls) active =
     count_active cls (if client_active cl then active + 1 else active)"

definition tcp_nmea_server_get_stats ::
    "tcp_server \<Rightarrow> tcp_nmea_server_stats option \<Rightarrow> tcp_nmea_server_stats option" where
  "tcp_nmea_server_get_stats s stats =
     (case stats of
        None \<Rightarrow> None
      | Some _ \<Rightarrow> Some \<lparr>active_clients = count_active (clients s) 0,
                        max_clients = word_of_nat (length (clients s))\<rparr>)"

interpretation client_table: slot_table client_active claim_client "\<lambda>cl. snd (close_client cl)"
  by unfold_locales (simp_all add: claim_client_def close_client_def Let_def)

lemma count_active_eq:
  "count_active cls a = a + word_of_nat (length (filter client_active cls))"
  by (induction cls a rule: count_active.induct) auto

end
