(* ===== verification/Program.thy ===== *)
theory Program
  imports Sessions_Properties Server Client Wifi_Facts
begin

text \<open>
  The whole running program: the data path of \<open>Sessions\<close>, the server thread and its client
  threads, the outbound client and the Wi-Fi manager. Thread \<open>i\<close> of the server's slots runs
  session \<open>i\<close>, and the outbound client the session after those.
\<close>

section \<open>State and events\<close>

record 'q program =
  prog_net :: "'q net"
  prog_server :: tcp_server
  prog_client :: tcp_client
  prog_wifi :: wifi_manager
  prog_threads :: wifi_threads

text \<open>
  Each event is one step of one thread; four are calls of start functions by \<open>main\<close>. A step that
  calls \<open>tcp_nmea_session_run\<close> carries the
  contents of the uninitialised locals of the call.
\<close>

type_synonym garbage = "nmea_bridge_sink \<times> nmea_frame"

datatype program_event =
    Ev_uart "u8 \<times> int"
  | Ev_dispatch
  | Ev_led_start bool bool int
  | Ev_uart_start bool
  | Ev_server_start
  | Ev_client_start
  | Ev_server server_input garbage
  | Ev_slot nat int "io_answer list"
  | Ev_client client_input garbage int "io_answer list"
  | Ev_wifi wifi_run_event

text \<open>The index of the outbound client's session, and how many session threads there are.\<close>

definition outbound_index :: "app_config \<Rightarrow> nat" where
  "outbound_index c = (if tcp_nmea_server_enable c then tcp_nmea_server_max_clients c else 0)"

definition session_threads :: "app_config \<Rightarrow> nat" where
  "session_threads c = outbound_index c + (if tcp_nmea_client_enable c then 1 else 0)"

section \<open>Steps\<close>

text \<open>
  A thread inside \<open>tcp_nmea_session_run\<close>: one step of its session, or its return. The result
  are the steps of the data path and whether the call returned.
\<close>

definition run_session :: "nat \<Rightarrow> int \<Rightarrow> io_answer list \<Rightarrow> 'q net \<Rightarrow> net_event list \<times> bool" where
  "run_session i now as n =
     (case session_at i n of
        None \<Rightarrow> ([], False)
      | Some s \<Rightarrow>
          if sess_pc s = At_return then ([Session_return i], True)
          else ([Session_step i now as], False))"

definition client_effect_events ::
    "app_config \<Rightarrow> garbage \<Rightarrow> client_effect \<Rightarrow> net_event list" where
  "client_effect_events c g eff =
     (case eff of
        No_effect \<Rightarrow> []
      | Led_connecting on \<Rightarrow> [Client_connecting_report on]
      | Sockets calls \<Rightarrow>
          [Close_fds (concat (map (\<lambda>x. case x of Sock_close fd \<Rightarrow> [fd] | _ \<Rightarrow> []) calls))]
      | Start_session fd \<Rightarrow>
          [Session_call (outbound_index c) fd (Some ''tcp-nmea-client'') (fst g) (snd g)])"

text \<open>
  What an event does to the threads' own state, and the steps of the data path it performs.
\<close>

fun program_local ::
    "app_config \<Rightarrow> program_event \<Rightarrow> 'q program \<Rightarrow> 'q program \<times> net_event list" where
  "program_local c (Ev_uart e) p = (p, [Uart_byte e])"
| "program_local c Ev_dispatch p = (p, [Dispatch_frame])"
| "program_local c (Ev_led_start has_strip ready now) p = (p, [Call_led_start has_strip ready now])"
| "program_local c (Ev_uart_start ready) p = (p, [Call_uart_start ready])"
| "program_local c Ev_server_start p =
     (case tcp_nmea_server_start c (prog_server p) of (_, _, s) \<Rightarrow> (p\<lparr>prog_server := s\<rparr>, []))"
| "program_local c Ev_client_start p =
     (case tcp_nmea_client_start c (prog_client p) of (_, _, cl) \<Rightarrow> (p\<lparr>prog_client := cl\<rparr>, []))"
| "program_local c (Ev_server inp g) p =
     (case server_step inp (prog_server p) of
        (s, closes, spawn) \<Rightarrow>
          (p\<lparr>prog_server := s\<rparr>,
           Close_fds closes #
           (case spawn of
              None \<Rightarrow> []
            | Some (i, fd) \<Rightarrow> [Session_call i fd (Some ''tcp-server-client'') (fst g) (snd g)])))"
| "program_local c (Ev_slot i now as) p =
     (let s = prog_server p
      in if \<not> i < length (clients s) then (p, [])
         else if client_thread (clients s ! i) = Client_in_session
         then (case run_session i now as (prog_net p) of
                 (evs, returned) \<Rightarrow>
                   (if returned
                    then p\<lparr>prog_server := s\<lparr>clients := (clients s)
                           [i := (clients s ! i)\<lparr>client_thread := Client_fd_reset\<rparr>]\<rparr>\<rparr>
                    else p, evs))
         else (case client_thread_step (clients s ! i) of
                 (closes, slot) \<Rightarrow>
                   (p\<lparr>prog_server := s\<lparr>clients := (clients s)[i := slot]\<rparr>\<rparr>, [Close_fds closes])))"
| "program_local c (Ev_client inp g now as) p =
     (if outbound_thread (prog_client p) = Outbound_in_session
      then (case run_session (outbound_index c) now as (prog_net p) of
              (evs, returned) \<Rightarrow>
                (if returned then p\<lparr>prog_client := client_session_returned (prog_client p)\<rparr> else p,
                 evs))
      else (case client_step c inp (prog_client p, prog_wifi p) of
              ((cl, w), eff, _) \<Rightarrow>
                (p\<lparr>prog_client := cl, prog_wifi := w\<rparr>, client_effect_events c g eff)))"
| "program_local c (Ev_wifi ev) p =
     (case wifi_run_step c ev (prog_wifi p, prog_threads p) of
        ((w, ts), _) \<Rightarrow> (p\<lparr>prog_wifi := w, prog_threads := ts\<rparr>, []))"

definition program_step ::
    "app_config \<Rightarrow> 'q msgq_ops \<Rightarrow> program_event \<Rightarrow> 'q program \<Rightarrow> 'q program" where
  "program_step c Q ev p =
     (case program_local c ev p of
        (p', evs) \<Rightarrow> p'\<lparr>prog_net := fold (net_step c Q) evs (prog_net p)\<rparr>)"

text \<open>The program after \<open>nmea_bridge_init\<close>, with the Wi-Fi manager in state \<open>w\<close>.\<close>

definition program_start ::
    "app_config \<Rightarrow> 'q msgq_ops \<Rightarrow> 'q \<Rightarrow> u8 list \<Rightarrow> wifi_manager \<Rightarrow> 'q program" where
  "program_start c Q q0 garbage w =
     \<lparr>prog_net = net_start c Q q0 garbage (session_threads c), prog_server = server_storage c,
      prog_client = client_storage, prog_wifi = w, prog_threads = wifi_threads_start\<rparr>"

definition program_run ::
    "app_config \<Rightarrow> 'q msgq_ops \<Rightarrow> 'q \<Rightarrow> u8 list \<Rightarrow> wifi_manager \<Rightarrow> program_event list \<Rightarrow> 'q program" where
  "program_run c Q q0 garbage w es = fold (program_step c Q) es (program_start c Q q0 garbage w)"

text \<open>The data path of a run of the program is a run of the data path.\<close>

fun program_trace ::
    "app_config \<Rightarrow> 'q msgq_ops \<Rightarrow> program_event list \<Rightarrow> 'q program \<Rightarrow> net_event list" where
  "program_trace c Q [] p = []"
| "program_trace c Q (ev # es) p =
     snd (program_local c ev p) @ program_trace c Q es (program_step c Q ev p)"

lemma program_net_fold:
  "prog_net (fold (program_step c Q) es p) = fold (net_step c Q) (program_trace c Q es p) (prog_net p)"
  by (induction es arbitrary: p) (simp_all add: program_step_def split_beta)

lemma program_net_run:
  "prog_net (program_run c Q q0 g w es) =
     net_run c Q q0 g (session_threads c) (program_trace c Q es (program_start c Q q0 g w))"
  by (simp add: program_run_def net_run_def program_net_fold program_start_def)

end
