(* ===== verification/Program_Facts.thy ===== *)
theory Program_Facts
  imports Program "HOL-Library.Multiset"
begin

text \<open>
  The invariants of the running program: threads and sessions fit together, and every socket
  descriptor the program has obtained is held in exactly one place or has been closed once.
\<close>

section \<open>Threads and sessions\<close>

lemma present_step:
  "session_at j (net_step c Q ev n) = None \<longleftrightarrow>
     (case ev of
        Session_call i fd name sink frame \<Rightarrow> session_at j n = None \<and> (j \<noteq> i \<or> length (net_sessions n) \<le> i)
      | Session_return i \<Rightarrow> session_at j n = None \<or>
          j = i \<and> (\<exists>s. session_at i n = Some s \<and> sess_pc s = At_return)
      | _ \<Rightarrow> session_at j n = None)"
  by (cases ev) (auto simp: session_at_def net_uart_byte_def net_session_step_def Let_def split_beta
      nth_list_update split: option.split)

definition slot_ok :: "client_slot \<Rightarrow> bool" where
  "slot_ok sl \<longleftrightarrow>
     (client_thread sl \<in> {Client_in_session, Client_fd_reset, Client_closing} \<longrightarrow> client_active sl) \<and>
     (client_thread sl = Client_closing \<longrightarrow> client_fd sl = - 1)"

definition free_thread :: "client_slot \<Rightarrow> bool" where
  "free_thread sl \<longleftrightarrow> client_thread sl \<in> {Client_none, Client_exiting}"

definition server_ok :: "app_config \<Rightarrow> tcp_server \<Rightarrow> bool" where
  "server_ok c s \<longleftrightarrow>
     length (clients s) = tcp_nmea_server_max_clients c \<and>
     (\<not> server_started s \<longrightarrow> server_thread s = Server_none) \<and>
     (\<forall>sl \<in> set (clients s). slot_ok sl) \<and>
     (\<not> tcp_nmea_server_enable c \<longrightarrow> server_thread s = Server_none \<and>
        (\<forall>sl \<in> set (clients s). client_thread sl = Client_none)) \<and>
     (\<forall>fd i. server_thread s = Server_spawn fd i \<longrightarrow>
        i < length (clients s) \<and> client_active (clients s ! i) \<and> free_thread (clients s ! i))"

definition slots_match :: "app_config \<Rightarrow> tcp_server \<Rightarrow> 'q net \<Rightarrow> bool" where
  "slots_match c s n \<longleftrightarrow>
     (tcp_nmea_server_enable c \<longrightarrow> (\<forall>i < length (clients s).
        client_thread (clients s ! i) = Client_in_session \<longleftrightarrow> session_at i n \<noteq> None))"

definition outbound_match :: "app_config \<Rightarrow> tcp_client \<Rightarrow> 'q net \<Rightarrow> bool" where
  "outbound_match c cl n \<longleftrightarrow>
     (\<not> client_started cl \<longrightarrow> outbound_thread cl = Outbound_none) \<and>
     (if tcp_nmea_client_enable c
      then outbound_thread cl = Outbound_in_session \<longleftrightarrow> session_at (outbound_index c) n \<noteq> None
      else outbound_thread cl = Outbound_none)"

definition threads_ok :: "app_config \<Rightarrow> 'q program \<Rightarrow> bool" where
  "threads_ok c p \<longleftrightarrow>
     length (net_sessions (prog_net p)) = session_threads c \<and> server_ok c (prog_server p) \<and>
     slots_match c (prog_server p) (prog_net p) \<and> outbound_match c (prog_client p) (prog_net p)"

lemma slot_threads: "tcp_nmea_server_enable c \<Longrightarrow> server_ok c s \<Longrightarrow> i < length (clients s) \<Longrightarrow>
    i < session_threads c \<and> i \<noteq> outbound_index c"
  by (simp add: server_ok_def session_threads_def outbound_index_def)

text \<open>One step of the server thread.\<close>

lemma server_step_cases:
  obtains (same) "server_step inp s = (s, [], None)"
  | (listening) so b l fd ok closes where "server_thread s = Server_setup" "inp = Setup_answers so b l"
      "server_listen so b l = (fd, ok, closes)"
      "server_step inp s = (s\<lparr>listen_fd := fd,
         server_thread := if ok then Server_accept else Server_stopped\<rparr>, closes, None)"
  | (accepted) fd where "server_thread s = Server_accept" "inp = Accept_answer (Inr fd)"
      "server_step inp s = (s\<lparr>server_thread := Server_alloc (int fd)\<rparr>, [], None)"
  | (rejected) fd where "server_thread s = Server_alloc fd"
      "first_free client_active 0 (clients s) = None"
      "server_step inp s = (s\<lparr>server_thread := Server_accept\<rparr>, [fd], None)"
  | (claimed) fd i where "server_thread s = Server_alloc fd"
      "first_free client_active 0 (clients s) = Some i"
      "server_step inp s = (s\<lparr>clients := (clients s)[i := claim_client (clients s ! i)],
         server_thread := Server_spawn fd i\<rparr>, [], None)"
  | (spawned) fd i where "server_thread s = Server_spawn fd i"
      "server_step inp s = (s\<lparr>clients := (clients s)[i := (clients s ! i)
         \<lparr>client_fd := fd, client_thread := Client_in_session\<rparr>],
         server_thread := Server_accept\<rparr>, [], Some (i, fd))"
proof (cases "server_thread s")
  case Server_setup
  show ?thesis
  proof (cases inp)
    case (Setup_answers so b l)
    obtain fd ok closes where "server_listen so b l = (fd, ok, closes)" by (metis prod.exhaust)
    then show ?thesis using Server_setup Setup_answers listening
      by (auto simp: server_step_def Let_def)
  qed (use Server_setup same in \<open>auto simp: server_step_def\<close>)
next
  case Server_accept
  show ?thesis
  proof (cases inp)
    case (Accept_answer a)
    then show ?thesis using Server_accept same accepted by (cases a) (auto simp: server_step_def)
  qed (use Server_accept same in \<open>auto simp: server_step_def\<close>)
next
  case (Server_alloc fd)
  then show ?thesis using rejected claimed
    by (cases "first_free client_active 0 (clients s)")
      (auto simp: server_step_def alloc_client_def)
next
  case (Server_spawn fd i)
  then show ?thesis using spawned by (auto simp: server_step_def)
qed (use same in \<open>auto simp: server_step_def\<close>)

lemma server_step_ok:
  assumes "server_ok c s"
  shows "server_ok c (fst (server_step inp s))"
proof (cases rule: server_step_cases [of inp s])
  case same
  then show ?thesis using assms by simp
next
  case listening
  then show ?thesis using assms by (auto simp: server_ok_def)
next
  case accepted
  then show ?thesis using assms by (auto simp: server_ok_def)
next
  case rejected
  then show ?thesis using assms by (auto simp: server_ok_def)
next
  case (claimed fd i)
  have i: "i < length (clients s)" "\<not> client_active (clients s ! i)"
    using first_free_Some [OF claimed(2)] by simp_all
  then have "slot_ok (clients s ! i)" using assms by (simp add: server_ok_def)
  then have "free_thread (clients s ! i)"
    using i(2) by (cases "client_thread (clients s ! i)") (auto simp: slot_ok_def free_thread_def)
  then show ?thesis using assms claimed i
    by (auto simp: server_ok_def claim_client_def slot_ok_def free_thread_def
        dest!: set_update_subset_insert [THEN subsetD])
next
  case (spawned fd i)
  then show ?thesis using assms
    by (auto simp: server_ok_def slot_ok_def dest!: set_update_subset_insert [THEN subsetD])
qed

lemma slot_update_ok:
  assumes "server_ok c s" and "slot_ok sl" and "i < length (clients s)"
    and "free_thread (clients s ! i) \<longrightarrow> free_thread sl \<and> client_active sl = client_active (clients s ! i)"
    and "client_thread (clients s ! i) = Client_none \<longrightarrow> client_thread sl = Client_none"
  shows "server_ok c (s\<lparr>clients := (clients s)[i := sl]\<rparr>)"
proof -
  let ?cs = "(clients s)[i := sl]"
  note old = assms(1) [unfolded server_ok_def]
  have sub: "set ?cs \<subseteq> insert sl (set (clients s))" by (rule set_update_subset_insert)
  then have "\<forall>x \<in> set ?cs. slot_ok x" using old assms(2) by blast
  moreover have "\<forall>x \<in> set ?cs. client_thread x = Client_none" if "\<not> tcp_nmea_server_enable c"
  proof -
    have all: "\<forall>x \<in> set (clients s). client_thread x = Client_none" using old that by blast
    then have "client_thread (clients s ! i) = Client_none" using assms(3) by simp
    then show ?thesis using assms(5) all sub by blast
  qed
  moreover have "client_active (?cs ! j) \<and> free_thread (?cs ! j)"
    if "server_thread s = Server_spawn fd j" for fd j
  proof -
    have "client_active (clients s ! j)" "free_thread (clients s ! j)" using old that by auto
    then show ?thesis using assms(3,4) by (cases "j = i") simp_all
  qed
  ultimately show ?thesis using old by (auto simp: server_ok_def)
qed

section \<open>One step of the program keeps the threads in order\<close>

definition keeps_sessions :: "net_event \<Rightarrow> bool" where
  "keeps_sessions ev \<longleftrightarrow> (case ev of Session_call _ _ _ _ _ \<Rightarrow> False | Session_return _ \<Rightarrow> False | _ \<Rightarrow> True)"

lemma present_fold:
  "\<forall>ev \<in> set evs. keeps_sessions ev \<Longrightarrow>
     (session_at j (fold (net_step c Q) evs n) = None) = (session_at j n = None)"
  by (induction evs arbitrary: n)
    (simp_all add: present_step keeps_sessions_def split: net_event.splits del: net_step.simps)

lemma net_fold_length: "length (net_sessions (fold (net_step c Q) evs n)) = length (net_sessions n)"
  by (induction evs arbitrary: n) (simp_all add: net_sessions_length del: net_step.simps)

lemma run_session_events:
  "run_session i now as n = (evs, returned) \<Longrightarrow>
     (if returned then \<exists>s. session_at i n = Some s \<and> sess_pc s = At_return \<and> evs = [Session_return i]
      else \<forall>ev \<in> set evs. keeps_sessions ev)"
  by (auto simp: run_session_def keeps_sessions_def split: option.splits if_splits)

lemma client_step_thread:
  assumes "client_step c inp (cl, w) = ((cl', w'), eff, secs)"
  shows "client_started cl' = client_started cl \<and>
    (if \<exists>fd. outbound_thread cl = Outbound_call fd
     then outbound_thread cl' = Outbound_in_session \<and> (\<exists>fd. eff = Start_session fd)
     else (outbound_thread cl' = Outbound_in_session \<longleftrightarrow> outbound_thread cl = Outbound_in_session) \<and>
       (outbound_thread cl = Outbound_none \<longrightarrow> outbound_thread cl' = Outbound_none) \<and>
       (\<forall>ev \<in> set (client_effect_events c g eff). keeps_sessions ev))"
  using assms
  by (cases "outbound_thread cl") (auto simp: client_step_def client_effect_events_def
      keeps_sessions_def split: prod.splits option.splits sum.splits host_pc.splits)

lemma threads_okD:
  assumes "threads_ok c p"
  shows "length (net_sessions (prog_net p)) = session_threads c" and "server_ok c (prog_server p)"
    and "slots_match c (prog_server p) (prog_net p)" and "outbound_match c (prog_client p) (prog_net p)"
  using assms by (simp_all add: threads_ok_def)

lemma match_cong:
  assumes "\<And>j. (session_at j n' = None) = (session_at j n = None)"
  shows "slots_match c s n' = slots_match c s n" and "outbound_match c cl n' = outbound_match c cl n"
  using assms by (simp_all add: slots_match_def outbound_match_def)

lemma keep_ok:
  assumes "threads_ok c p" and "prog_net q = fold (net_step c Q) evs (prog_net p)"
    and "\<forall>ev \<in> set evs. keeps_sessions ev"
    and "server_ok c (prog_server q)" and "slots_match c (prog_server q) (prog_net p)"
    and "outbound_match c (prog_client q) (prog_net p)"
  shows "threads_ok c q"
proof -
  have "(session_at j (prog_net q) = None) = (session_at j (prog_net p) = None)" for j
    unfolding assms(2) by (rule present_fold [OF assms(3)])
  note same = match_cong [OF this, where c = c]
  have "length (net_sessions (prog_net q)) = session_threads c"
    using threads_okD(1) [OF assms(1)] assms(2) by (simp add: net_fold_length)
  then show ?thesis using assms(4-6) same by (simp add: threads_ok_def)
qed

lemma server_event_ok:
  assumes "threads_ok c p"
  shows "threads_ok c (program_step c Q (Ev_server inp g) p)"
proof -
  let ?s = "prog_server p" and ?n = "prog_net p"
  note ok = threads_okD [OF assms]
  obtain s closes spawn where st: "server_step inp ?s = (s, closes, spawn)" by (metis prod.exhaust)
  have sok: "server_ok c s" using server_step_ok [OF ok(2), of inp] st by simp
  have quiet: ?thesis if q: "spawn = None" "slots_match c s ?n"
    by (rule keep_ok [OF assms, where Q = Q and evs = "[Close_fds closes]"])
      (use q st sok ok in \<open>simp_all add: program_step_def keeps_sessions_def\<close>)
  show ?thesis
  proof (cases rule: server_step_cases [of inp ?s])
    case (spawned fd i)
    have i: "i < length (clients ?s)" "free_thread (clients ?s ! i)"
      and en: "tcp_nmea_server_enable c"
      using ok(2) spawned(1) by (auto simp: server_ok_def)
    have idx: "i < length (net_sessions ?n)" "i \<noteq> outbound_index c"
      using slot_threads [OF en ok(2) i(1)] ok(1) by simp_all
    have "client_thread (clients ?s ! i) \<noteq> Client_in_session" using i(2) by (auto simp: free_thread_def)
    then have none: "session_at i ?n = None" using ok(3) en i(1) by (simp add: slots_match_def)
    let ?call = "Session_call i fd (Some ''tcp-server-client'') (fst g) (snd g)"
    let ?m = "net_step c Q (Close_fds []) ?n"
    have m: "session_at j ?m = session_at j ?n" "length (net_sessions ?m) = length (net_sessions ?n)" for j
      by (simp_all add: session_at_def)
    have at: "(session_at j (net_step c Q ?call ?m) = None) = (session_at j ?n = None \<and> j \<noteq> i)" for j
      unfolding present_step using m idx by simp
    have "slots_match c s (net_step c Q ?call ?m)"
      using ok(3) spawned(2) st i at by (auto simp: slots_match_def nth_list_update)
    moreover have "outbound_match c (prog_client p) (net_step c Q ?call ?m)"
      using ok(4) idx(2) unfolding outbound_match_def at by auto
    moreover have "length (net_sessions (net_step c Q ?call ?m)) = session_threads c"
      using ok(1) by (simp only: net_sessions_length)
    ultimately show ?thesis
      using spawned(2) st sok
      by (simp add: program_step_def threads_ok_def split_beta del: net_step.simps)
  next
    case (claimed fd i)
    then show ?thesis using st ok(3) first_free_Some [OF claimed(2)]
      by (intro quiet) (auto simp: slots_match_def claim_client_def nth_list_update)
  qed (use st ok(3) quiet in \<open>auto simp: slots_match_def\<close>)
qed

text \<open>A client thread outside its session, and the return of its session.\<close>

lemma slot_thread_ok:
  assumes "threads_ok c p" and i: "i < length (clients (prog_server p))"
    and out: "client_thread (clients (prog_server p) ! i) \<noteq> Client_in_session"
  shows "threads_ok c (program_step c Q (Ev_slot i now as) p)"
proof -
  let ?sl = "clients (prog_server p) ! i"
  note ok = threads_okD [OF assms(1)]
  have slok: "slot_ok ?sl" using ok(2) i by (simp add: server_ok_def)
  obtain closes sl where st: "client_thread_step ?sl = (closes, sl)" by (metis prod.exhaust)
  have sl: "slot_ok sl" "client_thread sl \<noteq> Client_in_session"
    and free: "free_thread ?sl \<longrightarrow> free_thread sl \<and> client_active sl = client_active ?sl"
    and none: "client_thread ?sl = Client_none \<longrightarrow> client_thread sl = Client_none"
    using st slok out
    by (cases "client_thread ?sl"; force simp: client_thread_step_def close_client_def Let_def
        slot_ok_def free_thread_def split: if_splits)+
  show ?thesis
  proof (rule keep_ok [OF assms(1), where Q = Q and evs = "[Close_fds closes]"])
    show "server_ok c (prog_server (program_step c Q (Ev_slot i now as) p))"
      using slot_update_ok [OF ok(2) sl(1) i free none] i out st
      by (simp add: program_step_def split_beta Let_def)
    show "slots_match c (prog_server (program_step c Q (Ev_slot i now as) p)) (prog_net p)"
      using ok(3) i out st sl(2)
      by (auto simp: program_step_def Let_def slots_match_def nth_list_update)
  qed (use i out st ok(4) in \<open>simp_all add: program_step_def keeps_sessions_def Let_def\<close>)
qed

lemma slot_return_ok:
  assumes "threads_ok c p" and i: "i < length (clients (prog_server p))"
    and inside: "client_thread (clients (prog_server p) ! i) = Client_in_session"
    and s: "session_at i (prog_net p) = Some s" "sess_pc s = At_return"
    and q: "prog_server q = prog_server p\<lparr>clients := (clients (prog_server p))
        [i := (clients (prog_server p) ! i)\<lparr>client_thread := Client_fd_reset\<rparr>]\<rparr>"
      "prog_net q = net_step c Q (Session_return i) (prog_net p)" "prog_client q = prog_client p"
  shows "threads_ok c q"
proof -
  let ?sl = "clients (prog_server p) ! i"
  note ok = threads_okD [OF assms(1)]
  have slok: "slot_ok ?sl" using ok(2) i by (simp add: server_ok_def)
  have en: "tcp_nmea_server_enable c"
    using ok(2) i inside unfolding server_ok_def by (metis client_pc.distinct(1) nth_mem)
  have at: "(session_at j (prog_net q) = None) = (session_at j (prog_net p) = None \<or> j = i)" for j
    unfolding q present_step using s by auto
  have "server_ok c (prog_server q)"
    unfolding q using slok inside i
    by (intro slot_update_ok [OF ok(2)]) (auto simp: slot_ok_def free_thread_def)
  moreover have "slots_match c (prog_server q) (prog_net q)"
    using ok(3) i at by (auto simp: slots_match_def q(1) nth_list_update)
  moreover have "outbound_match c (prog_client q) (prog_net q)"
    using ok(4) slot_threads [OF en ok(2) i] unfolding outbound_match_def at q(3) by auto
  moreover have "length (net_sessions (prog_net q)) = session_threads c"
    unfolding q(2) net_sessions_length by (rule ok(1))
  ultimately show ?thesis by (simp add: threads_ok_def)
qed

lemma slot_event_ok:
  assumes "threads_ok c p"
  shows "threads_ok c (program_step c Q (Ev_slot i now as) p)"
proof (cases "i < length (clients (prog_server p))")
  case False
  then show ?thesis using assms
    by (intro keep_ok [OF assms, where Q = Q and evs = "[]"]) (simp_all add: program_step_def threads_ok_def)
next
  case i: True
  let ?n = "prog_net p"
  show ?thesis
  proof (cases "client_thread (clients (prog_server p) ! i) = Client_in_session")
    case False
    then show ?thesis by (rule slot_thread_ok [OF assms i])
  next
    case True
    obtain evs returned where r: "run_session i now as ?n = (evs, returned)" by (metis prod.exhaust)
    show ?thesis
    proof (cases returned)
      case False
      then show ?thesis using run_session_events [OF r] i True r threads_okD [OF assms]
        by (intro keep_ok [OF assms, where Q = Q and evs = evs]) (simp_all add: program_step_def Let_def)
    next
      case ret: True
      then obtain s where s: "session_at i ?n = Some s" "sess_pc s = At_return" "evs = [Session_return i]"
        using run_session_events [OF r] by auto
      show ?thesis
        by (rule slot_return_ok [OF assms i True s(1,2), where Q = Q])
          (use i True ret r s(3) in \<open>simp_all add: program_step_def Let_def\<close>)
    qed
  qed
qed

lemma outbound_valid:
  assumes "threads_ok c p" and "outbound_thread (prog_client p) \<noteq> Outbound_none"
  shows "tcp_nmea_client_enable c" and "outbound_index c < length (net_sessions (prog_net p))"
    and "i < length (clients (prog_server p)) \<Longrightarrow> tcp_nmea_server_enable c \<Longrightarrow> i \<noteq> outbound_index c"
proof -
  show en: "tcp_nmea_client_enable c"
    using threads_okD(4) [OF assms(1)] assms(2) by (auto simp: outbound_match_def split: if_splits)
  then show "outbound_index c < length (net_sessions (prog_net p))"
    using threads_okD(1) [OF assms(1)] by (simp add: session_threads_def)
  show "i \<noteq> outbound_index c" if "i < length (clients (prog_server p))" "tcp_nmea_server_enable c"
    using slot_threads [OF that(2) threads_okD(2) [OF assms(1)] that(1)] by simp
qed

text \<open>The outbound client starts its session, and its session returns.\<close>

lemma outbound_change_ok:
  assumes "threads_ok c p" and "outbound_thread (prog_client p) \<noteq> Outbound_none"
    and "prog_server q = prog_server p" and "prog_net q = net_step c Q ev (prog_net p)"
    and "\<And>j. j \<noteq> outbound_index c \<Longrightarrow> (session_at j (prog_net q) = None) = (session_at j (prog_net p) = None)"
    and "client_started (prog_client q) = client_started (prog_client p)"
    and "outbound_thread (prog_client q) = Outbound_in_session \<longleftrightarrow>
      session_at (outbound_index c) (prog_net q) \<noteq> None"
  shows "threads_ok c q"
proof -
  note ok = threads_okD [OF assms(1)]
  have "slots_match c (prog_server q) (prog_net q)"
    using ok(3) outbound_valid(3) [OF assms(1,2)] assms(5) unfolding slots_match_def assms(3) by auto
  moreover have "client_started (prog_client p)" using ok(4) assms(2) by (auto simp: outbound_match_def)
  then have "outbound_match c (prog_client q) (prog_net q)"
    using outbound_valid(1) [OF assms(1,2)] assms(6,7) by (simp add: outbound_match_def)
  moreover have "length (net_sessions (prog_net q)) = session_threads c"
    unfolding assms(4) net_sessions_length by (rule ok(1))
  ultimately show ?thesis using ok(2) assms(3) by (simp add: threads_ok_def)
qed

lemma client_session_ok:
  assumes "threads_ok c p" and inside: "outbound_thread (prog_client p) = Outbound_in_session"
  shows "threads_ok c (program_step c Q (Ev_client inp g now as) p)"
proof -
  let ?n = "prog_net p" and ?k = "outbound_index c" and ?q = "program_step c Q (Ev_client inp g now as) p"
  have ne: "outbound_thread (prog_client p) \<noteq> Outbound_none" using inside by simp
  obtain evs returned where r: "run_session ?k now as ?n = (evs, returned)" by (metis prod.exhaust)
  show ?thesis
  proof (cases returned)
    case False
    then show ?thesis using run_session_events [OF r] inside r threads_okD [OF assms(1)]
      by (intro keep_ok [OF assms(1), where Q = Q and evs = evs]) (simp_all add: program_step_def Let_def)
  next
    case True
    then obtain s where s: "session_at ?k ?n = Some s" "sess_pc s = At_return" "evs = [Session_return ?k]"
      using run_session_events [OF r] by auto
    have q: "prog_server ?q = prog_server p" "prog_client ?q = client_session_returned (prog_client p)"
        "prog_net ?q = net_step c Q (Session_return ?k) ?n"
      using inside True r s(3) by (simp_all add: program_step_def Let_def)
    have at: "(session_at j (prog_net ?q) = None) = (session_at j ?n = None \<or> j = ?k)" for j
      unfolding q present_step using s by auto
    show ?thesis
      by (rule outbound_change_ok [OF assms(1) ne q(1,3)])
        (use at [of ?k] at q(2) in \<open>simp_all add: client_session_returned_def\<close>)
  qed
qed

lemma client_thread_ok:
  assumes "threads_ok c p" and outside: "outbound_thread (prog_client p) \<noteq> Outbound_in_session"
  shows "threads_ok c (program_step c Q (Ev_client inp g now as) p)"
proof -
  let ?cl = "prog_client p" and ?n = "prog_net p" and ?k = "outbound_index c"
  let ?q = "program_step c Q (Ev_client inp g now as) p"
  note ok = threads_okD [OF assms(1)]
  obtain cl w eff secs where st: "client_step c inp (?cl, prog_wifi p) = ((cl, w), eff, secs)"
    by (metis prod.exhaust)
  note th = client_step_thread [OF st, of g]
  have q: "prog_server ?q = prog_server p" "prog_client ?q = cl"
      "prog_net ?q = fold (net_step c Q) (client_effect_events c g eff) ?n"
    using outside st by (simp_all add: program_step_def Let_def)
  show ?thesis
  proof (cases "\<exists>fd. outbound_thread ?cl = Outbound_call fd")
    case False
    then have m: "outbound_match c cl ?n"
      using th ok(4) by (auto simp: outbound_match_def split: if_splits)
    show ?thesis
      by (rule keep_ok [OF assms(1) q(3)]) (use th False ok m q in simp_all)
  next
    case call: True
    then have ne: "outbound_thread ?cl \<noteq> Outbound_none" by auto
    obtain fd where fd: "eff = Start_session fd" using th call by auto
    have q3: "prog_net ?q = net_step c Q
        (Session_call ?k fd (Some ''tcp-nmea-client'') (fst g) (snd g)) ?n"
      using q(3) fd by (simp add: client_effect_events_def)
    have at: "(session_at j (prog_net ?q) = None) = (session_at j ?n = None \<and> j \<noteq> ?k)" for j
      unfolding q3 present_step using outbound_valid(2) [OF assms(1) ne] by auto
    show ?thesis
      by (rule outbound_change_ok [OF assms(1) ne q(1) q3]) (use at [of ?k] at q(2) th call in simp_all)
  qed
qed

lemma client_event_ok:
  "threads_ok c p \<Longrightarrow> threads_ok c (program_step c Q (Ev_client inp g now as) p)"
  using client_session_ok client_thread_ok by blast

lemma start_events_ok:
  assumes "threads_ok c p"
  shows "threads_ok c (program_step c Q Ev_server_start p)"
    and "threads_ok c (program_step c Q (Ev_led_start has_strip ready now) p)"
    and "threads_ok c (program_step c Q (Ev_uart_start ready) p)"
    and "threads_ok c (program_step c Q Ev_client_start p)"
proof -
  note ok = threads_okD [OF assms]
  show "threads_ok c (program_step c Q Ev_server_start p)"
    using ok by (intro keep_ok [OF assms, where Q = Q and evs = "[]"])
      (auto simp: program_step_def tcp_nmea_server_start_def server_ok_def slots_match_def slot_ok_def)
  show "threads_ok c (program_step c Q (Ev_led_start has_strip ready now) p)"
    using ok by (intro keep_ok [OF assms, where Q = Q and evs = "[Call_led_start has_strip ready now]"])
      (simp_all add: program_step_def keeps_sessions_def)
  show "threads_ok c (program_step c Q (Ev_uart_start ready) p)"
    using ok by (intro keep_ok [OF assms, where Q = Q and evs = "[Call_uart_start ready]"])
      (simp_all add: program_step_def keeps_sessions_def)
  show "threads_ok c (program_step c Q Ev_client_start p)"
    using ok by (intro keep_ok [OF assms, where Q = Q and evs = "[]"])
      (auto simp: program_step_def tcp_nmea_client_start_def outbound_match_def)
qed

lemma threads_step:
  assumes "threads_ok c p"
  shows "threads_ok c (program_step c Q ev p)"
proof (cases ev)
  case (Ev_uart e)
  then show ?thesis using threads_okD [OF assms]
    by (intro keep_ok [OF assms, where Q = Q and evs = "[Uart_byte e]"])
      (simp_all add: program_step_def keeps_sessions_def)
next
  case Ev_dispatch
  then show ?thesis using threads_okD [OF assms]
    by (intro keep_ok [OF assms, where Q = Q and evs = "[Dispatch_frame]"])
      (simp_all add: program_step_def keeps_sessions_def)
next
  case (Ev_wifi e)
  then show ?thesis using threads_okD [OF assms]
    by (intro keep_ok [OF assms, where Q = Q and evs = "[]"])
      (simp_all add: program_step_def split_beta)
qed (simp_all only: start_events_ok [OF assms] server_event_ok [OF assms] slot_event_ok [OF assms]
    client_event_ok [OF assms])

interpretation program_machine: invariant_machine "program_step c Q" "threads_ok c" for c Q
  by unfold_locales (rule threads_step)

lemma start_threads_ok: "threads_ok c (program_start c Q q0 g w)"
  by (auto simp: threads_ok_def program_start_def net_start_def server_ok_def server_storage_def
      slots_match_def outbound_match_def client_storage_def session_at_def slot_ok_def)

lemma run_threads_ok: "threads_ok c (program_run c Q q0 g w es)"
  unfolding program_run_def by (rule program_machine.run_inv [OF start_threads_ok])

end
