(* ===== verification/Program_Fds.thy ===== *)
theory Program_Fds
  imports Program_Facts
begin

text \<open>
  Accounting for the socket descriptors of the NMEA server and the outbound client: those the
  program has obtained are those it has closed together with those it still holds.
\<close>

section \<open>Who holds which descriptor\<close>

definition session_fds :: "session option \<Rightarrow> int multiset" where
  "session_fds x =
     (case x of None \<Rightarrow> {#} | Some s \<Rightarrow> if sess_pc s = At_return then {#} else {#sess_fd s#})"

definition server_fds :: "tcp_server \<Rightarrow> int multiset" where
  "server_fds s =
     (case server_thread s of
        Server_accept \<Rightarrow> {#listen_fd s#}
      | Server_alloc fd \<Rightarrow> {#listen_fd s, fd#}
      | Server_spawn fd _ \<Rightarrow> {#listen_fd s, fd#}
      | _ \<Rightarrow> {#})"

definition client_fds :: "tcp_client \<Rightarrow> int multiset" where
  "client_fds cl =
     (case outbound_thread cl of
        Outbound_led_off fd \<Rightarrow> {#fd#}
      | Outbound_call fd \<Rightarrow> {#fd#}
      | _ \<Rightarrow> {#})"

definition held_fds :: "'q program \<Rightarrow> int multiset" where
  "held_fds p = server_fds (prog_server p) + client_fds (prog_client p) +
     (\<Sum>x\<leftarrow>net_sessions (prog_net p). session_fds x)"

definition closed_of :: "'q program \<Rightarrow> int list" where
  "closed_of p = closed_fds (net_env (prog_net p))"

text \<open>The descriptors an event obtains from \<open>zsock_socket\<close> or \<open>zsock_accept\<close>.\<close>

fun obtained :: "program_event \<Rightarrow> 'q program \<Rightarrow> int multiset" where
  "obtained (Ev_server (Setup_answers (Inr fd) _ _) _) p =
     (if server_thread (prog_server p) = Server_setup then {#int fd#} else {#})"
| "obtained (Ev_server (Accept_answer (Inr fd)) _) p =
     (if server_thread (prog_server p) = Server_accept then {#int fd#} else {#})"
| "obtained (Ev_client inp _ _ _) p =
     (case (outbound_thread (prog_client p), in_socket inp) of
        (Outbound_connect _, Inr fd) \<Rightarrow> {#int fd#}
      | _ \<Rightarrow> {#})"
| "obtained _ p = {#}"

fun obtained_fds ::
    "app_config \<Rightarrow> 'q msgq_ops \<Rightarrow> program_event list \<Rightarrow> 'q program \<Rightarrow> int multiset" where
  "obtained_fds c Q [] p = {#}"
| "obtained_fds c Q (ev # es) p = obtained ev p + obtained_fds c Q es (program_step c Q ev p)"

section \<open>The data path\<close>

lemma sum_update:
  fixes f :: "'a \<Rightarrow> 'b :: cancel_comm_monoid_add"
  shows "k < length xs \<Longrightarrow> (\<Sum>x\<leftarrow>xs[k := y]. f x) + f (xs ! k) = (\<Sum>x\<leftarrow>xs. f x) + f y"
proof (induction xs arbitrary: k)
  case Nil
  then show ?case by simp
next
  case (Cons x xs)
  then show ?case by (cases k) (simp_all add: ac_simps)
qed

lemma swap_cancel:
  fixes a :: "'b :: cancel_comm_monoid_add"
  assumes "a + x = b + y" and "c + y = d + x"
  shows "a + c = b + d"
proof -
  have "(a + c) + (x + y) = (a + x) + (c + y)" by (simp only: ac_simps)
  also have "\<dots> = (b + d) + (x + y)" unfolding assms by (simp only: ac_simps)
  finally show ?thesis by (simp only: add_right_cancel)
qed

definition net_total :: "'q net \<Rightarrow> int multiset" where
  "net_total n = mset (closed_fds (net_env n)) + (\<Sum>x\<leftarrow>net_sessions n. session_fds x)"

lemma session_step_fds:
  "mset (closed_fds (snd (session_step c Q now as s env))) +
     session_fds (Some (fst (session_step c Q now as s env))) =
   mset (closed_fds env) + session_fds (Some s)"
  by (cases "sess_pc s") (auto simp: step_unfold session_fds_def
      split: option.split prod.split sum.split)

lemma net_total_step:
  "net_total (net_step c Q ev n) = net_total n +
     (case ev of
        Session_call i fd name sink frame \<Rightarrow>
          if i < length (net_sessions n) \<and> net_sessions n ! i = None then {#fd#} else {#}
      | Close_fds fds \<Rightarrow> mset fds
      | _ \<Rightarrow> {#})"
proof (cases ev)
  case (Session_call i fd name sink frame)
  then show ?thesis
    using sum_update [of i "net_sessions n" session_fds "Some (tcp_nmea_session_call sink frame fd name)"]
    by (auto simp: net_total_def session_fds_def tcp_nmea_session_call_def)
next
  case (Session_step i now as)
  show ?thesis
  proof (cases "session_at i n")
    case None
    then show ?thesis using Session_step by simp
  next
    case (Some s)
    then have i: "i < length (net_sessions n)" "net_sessions n ! i = Some s"
      by (auto simp: session_at_def split: if_splits)
    let ?r = "session_step c Q now as s (net_env n)"
    have "(\<Sum>x\<leftarrow>(net_sessions n)[i := Some (fst ?r)]. session_fds x) + session_fds (Some s) =
        (\<Sum>x\<leftarrow>net_sessions n. session_fds x) + session_fds (Some (fst ?r))"
      using sum_update [OF i(1), of session_fds "Some (fst ?r)"] i(2) by simp
    moreover have "net_total (net_step c Q ev n) = mset (closed_fds (snd ?r)) +
        (\<Sum>x\<leftarrow>(net_sessions n)[i := Some (fst ?r)]. session_fds x)"
      using Session_step Some by (simp add: net_total_def net_session_step_def split_beta Let_def)
    ultimately have "net_total (net_step c Q ev n) = net_total n"
      using swap_cancel [OF session_step_fds [of c Q now as s "net_env n"]]
      by (simp add: net_total_def)
    then show ?thesis using Session_step by simp
  qed
next
  case (Session_return i)
  show ?thesis
  proof (cases "\<exists>s. session_at i n = Some s \<and> sess_pc s = At_return")
    case True
    then obtain s where s: "session_at i n = Some s" "sess_pc s = At_return" by auto
    then have i: "i < length (net_sessions n)" "net_sessions n ! i = Some s"
      by (auto simp: session_at_def split: if_splits)
    then show ?thesis using Session_return s sum_update [OF i(1), of session_fds None]
      by (simp add: net_total_def session_fds_def)
  next
    case False
    then show ?thesis using Session_return by (auto split: option.split)
  qed
qed (auto simp: net_total_def net_uart_byte_def Let_def split: option.split)

section \<open>The program\<close>

lemma total_split:
  "mset (closed_of p) + held_fds p =
     net_total (prog_net p) + server_fds (prog_server p) + client_fds (prog_client p)"
  by (simp add: closed_of_def held_fds_def net_total_def ac_simps)

lemma quiet_total:
  "\<forall>ev \<in> set evs. keeps_sessions ev \<and> (\<forall>fds. ev = Close_fds fds \<longrightarrow> fds = []) \<Longrightarrow>
     net_total (fold (net_step c Q) evs n) = net_total n"
  by (induction evs arbitrary: n)
    (auto simp: net_total_step keeps_sessions_def simp del: net_step.simps split: net_event.splits)

lemma run_session_total:
  "run_session i now as n = (evs, returned) \<Longrightarrow>
     net_total (fold (net_step c Q) evs n) = net_total n"
  by (auto simp: run_session_def net_total_step simp del: net_step.simps split: option.splits if_splits)

lemma close_fds_sessions: "net_sessions (net_step c Q (Close_fds fds) n) = net_sessions n"
  by simp

lemma obtained_other:
  "server_thread (prog_server p) \<noteq> Server_setup \<Longrightarrow> server_thread (prog_server p) \<noteq> Server_accept \<Longrightarrow>
     obtained (Ev_server inp g) p = {#}"
  by (cases "(Ev_server inp g, p)" rule: obtained.cases) auto

lemma server_event_total:
  assumes "threads_ok c p"
  shows "mset (closed_of (program_step c Q (Ev_server inp g) p)) +
           held_fds (program_step c Q (Ev_server inp g) p) =
         mset (closed_of p) + held_fds p + obtained (Ev_server inp g) p"
proof -
  let ?s = "prog_server p"
  have step: "mset (closed_of (program_step c Q (Ev_server inp g) p)) +
      held_fds (program_step c Q (Ev_server inp g) p) =
    net_total (prog_net p) + mset closes + server_fds s + client_fds (prog_client p)"
    if "server_step inp ?s = (s, closes, None)" for s closes
    unfolding total_split using that by (simp add: program_step_def net_total_step del: net_step.simps)
  show ?thesis
  proof (cases rule: server_step_cases [of inp ?s])
    case same
    then have "server_thread (fst (server_step inp ?s)) = server_thread ?s" by simp
    then have "obtained (Ev_server inp g) p = {#}"
      by (cases "(Ev_server inp g, p)" rule: obtained.cases)
        (auto simp: server_step_def Let_def split_beta split: if_splits)
    then show ?thesis unfolding step [OF same] unfolding total_split by simp
  next
    case (listening so b l fd ok closes)
    have "mset closes + server_fds (?s\<lparr>listen_fd := fd,
          server_thread := if ok then Server_accept else Server_stopped\<rparr>) =
        server_fds ?s + obtained (Ev_server inp g) p"
      using listening(1-3) by (auto simp: server_fds_def server_listen_def split: sum.splits)
    then show ?thesis unfolding step [OF listening(4)] unfolding total_split by (simp add: ac_simps)
  next
    case (accepted fd)
    then show ?thesis unfolding step [OF accepted(3)] unfolding total_split
      by (simp add: server_fds_def)
  next
    case (rejected fd)
    then show ?thesis unfolding step [OF rejected(3)] unfolding total_split
      by (simp add: server_fds_def obtained_other)
  next
    case (claimed fd i)
    then show ?thesis unfolding step [OF claimed(3)] unfolding total_split
      by (simp add: server_fds_def obtained_other)
  next
    case (spawned fd i)
    note ok = threads_okD [OF assms]
    have i: "i < length (clients ?s)" "free_thread (clients ?s ! i)"
      and en: "tcp_nmea_server_enable c"
      using ok(2) spawned(1) by (auto simp: server_ok_def)
    have idx: "i < length (net_sessions (prog_net p))"
      using slot_threads [OF en ok(2) i(1)] ok(1) by simp
    have "client_thread (clients ?s ! i) \<noteq> Client_in_session" using i(2) by (auto simp: free_thread_def)
    then have "session_at i (prog_net p) = None" using ok(3) en i(1) by (simp add: slots_match_def)
    then have "net_sessions (prog_net p) ! i = None" using idx by (simp add: session_at_def)
    then show ?thesis using spawned idx
      unfolding total_split
      by (simp add: program_step_def net_total_step server_fds_def obtained_other close_fds_sessions
          del: net_step.simps)
  qed
qed

lemma slot_event_total:
  assumes "threads_ok c p"
  shows "mset (closed_of (program_step c Q (Ev_slot i now as) p)) +
           held_fds (program_step c Q (Ev_slot i now as) p) =
         mset (closed_of p) + held_fds p"
proof (cases "i < length (clients (prog_server p))")
  case False
  then show ?thesis by (simp add: program_step_def closed_of_def held_fds_def)
next
  case i: True
  let ?s = "prog_server p"
  have slok: "slot_ok (clients ?s ! i)"
    using threads_okD(2) [OF assms] i by (simp add: server_ok_def)
  have srv: "server_fds (?s\<lparr>clients := cs\<rparr>) = server_fds ?s" for cs
    by (simp add: server_fds_def split: server_pc.split)
  show ?thesis
  proof (cases "client_thread (clients ?s ! i) = Client_in_session")
    case True
    obtain evs returned where r: "run_session i now as (prog_net p) = (evs, returned)"
      by (metis prod.exhaust)
    then show ?thesis unfolding total_split using i True run_session_total [OF r]
      by (simp add: program_step_def Let_def srv)
  next
    case False
    obtain closes sl where st: "client_thread_step (clients ?s ! i) = (closes, sl)" by (metis prod.exhaust)
    then have "closes = []"
      using slok by (cases "client_thread (clients ?s ! i)")
        (auto simp: client_thread_step_def close_client_def Let_def slot_ok_def)
    then show ?thesis unfolding total_split using i False st
      by (simp add: program_step_def Let_def srv net_total_step del: net_step.simps)
  qed
qed

lemma client_event_total:
  assumes "threads_ok c p"
  shows "mset (closed_of (program_step c Q (Ev_client inp g now as) p)) +
           held_fds (program_step c Q (Ev_client inp g now as) p) =
         mset (closed_of p) + held_fds p + obtained (Ev_client inp g now as) p"
proof (cases "outbound_thread (prog_client p) = Outbound_in_session")
  case True
  obtain evs returned where r: "run_session (outbound_index c) now as (prog_net p) = (evs, returned)"
    by (metis prod.exhaust)
  then show ?thesis unfolding total_split using True run_session_total [OF r]
    by (simp add: program_step_def client_fds_def client_session_returned_def)
next
  case False
  let ?cl = "prog_client p"
  obtain cl w eff secs where st: "client_step c inp (?cl, prog_wifi p) = ((cl, w), eff, secs)"
    by (metis prod.exhaust)
  have step: "mset (closed_of (program_step c Q (Ev_client inp g now as) p)) +
      held_fds (program_step c Q (Ev_client inp g now as) p) =
    net_total (fold (net_step c Q) (client_effect_events c g eff) (prog_net p)) +
      server_fds (prog_server p) + client_fds cl"
    unfolding total_split using False st by (simp add: program_step_def)
  have "net_total (fold (net_step c Q) (client_effect_events c g eff) (prog_net p)) + client_fds cl =
      net_total (prog_net p) + client_fds ?cl + obtained (Ev_client inp g now as) p"
  proof (cases "\<exists>fd. outbound_thread ?cl = Outbound_call fd")
    case True
    then obtain fd where fd: "outbound_thread ?cl = Outbound_call fd" by auto
    then have ne: "outbound_thread ?cl \<noteq> Outbound_none" by simp
    have "session_at (outbound_index c) (prog_net p) = None"
      using threads_okD(4) [OF assms] outbound_valid(1) [OF assms ne] fd
      by (auto simp: outbound_match_def)
    then have "net_sessions (prog_net p) ! outbound_index c = None"
      using outbound_valid(2) [OF assms ne] by (simp add: session_at_def)
    then show ?thesis using st fd outbound_valid(2) [OF assms ne]
      by (auto simp: client_step_def client_effect_events_def net_total_step client_fds_def
          simp del: net_step.simps)
  next
    case not_call: False
    then show ?thesis using st False
      by (cases "outbound_thread ?cl") (auto simp: client_step_def client_effect_events_def
          net_total_step client_fds_def connect_server_def simp del: net_step.simps
          split: prod.splits option.splits sum.splits host_pc.splits)
  qed
  then show ?thesis unfolding step unfolding total_split by (simp add: ac_simps)
qed

lemma program_step_total:
  assumes "threads_ok c p"
  shows "mset (closed_of (program_step c Q ev p)) + held_fds (program_step c Q ev p) =
         mset (closed_of p) + held_fds p + obtained ev p"
proof (cases ev)
  case (Ev_uart e)
  then show ?thesis unfolding total_split by (simp add: program_step_def net_total_step del: net_step.simps)
next
  case (Ev_led_start has_strip ready now)
  then show ?thesis unfolding total_split by (simp add: program_step_def net_total_step del: net_step.simps)
next
  case (Ev_uart_start ready)
  then show ?thesis unfolding total_split by (simp add: program_step_def net_total_step del: net_step.simps)
next
  case Ev_dispatch
  then show ?thesis unfolding total_split by (simp add: program_step_def net_total_step del: net_step.simps)
next
  case Ev_server_start
  then show ?thesis using threads_okD(2) [OF assms] unfolding total_split
    by (auto simp: program_step_def tcp_nmea_server_start_def server_fds_def server_ok_def
        split: server_pc.split)
next
  case Ev_client_start
  then show ?thesis using threads_okD(4) [OF assms] unfolding total_split
    by (auto simp: program_step_def tcp_nmea_client_start_def client_fds_def outbound_match_def
        split: outbound_pc.split)
next
  case (Ev_wifi e)
  then show ?thesis unfolding total_split by (simp add: program_step_def split_beta)
qed (simp_all only: server_event_total [OF assms] slot_event_total [OF assms]
    client_event_total [OF assms] obtained.simps add_0_right)

lemma fds_accounted:
  "threads_ok c p \<Longrightarrow> mset (closed_of (fold (program_step c Q) es p)) +
       held_fds (fold (program_step c Q) es p) =
     mset (closed_of p) + held_fds p + obtained_fds c Q es p"
proof (induction es arbitrary: p)
  case Nil
  then show ?case by simp
next
  case (Cons ev es)
  then show ?case
    using Cons.IH [OF threads_step [OF Cons.prems, of Q ev]] program_step_total [OF Cons.prems, of Q ev]
    by (simp add: ac_simps)
qed

end
