(* ===== verification/Program_Threads.thy ===== *)
theory Program_Threads
  imports Program_Facts
begin

text \<open>
  Two more invariants of the running program: the slots of the TCP server are in use exactly as
  long as their threads need them, and the status LED's connecting flag follows the outbound
  client.
\<close>

section \<open>The slots of the server\<close>

text \<open>
  A slot is marked active exactly while its thread is in a session or taking it down, or the
  server has claimed it and is about to create its thread.
\<close>

definition slots_used :: "tcp_server \<Rightarrow> bool" where
  "slots_used s \<longleftrightarrow> (\<forall>i < length (clients s).
     client_active (clients s ! i) \<longleftrightarrow>
       \<not> free_thread (clients s ! i) \<or> (\<exists>fd. server_thread s = Server_spawn fd i))"

lemma server_step_used:
  assumes "server_ok c s" and "slots_used s"
  shows "slots_used (fst (server_step inp s))"
proof (cases rule: server_step_cases [of inp s])
  case (claimed fd i)
  then show ?thesis using assms(2) first_free_Some [OF claimed(2)]
    by (auto simp: slots_used_def claim_client_def free_thread_def nth_list_update)
next
  case (spawned fd i)
  then show ?thesis using assms
    by (auto simp: slots_used_def server_ok_def free_thread_def nth_list_update)
qed (use assms(2) in \<open>auto simp: slots_used_def\<close>)

lemma slot_change_used:
  assumes "slots_used s" and "i < length (clients s)"
    and "client_active sl \<longleftrightarrow> \<not> free_thread sl \<or> (\<exists>fd. server_thread s = Server_spawn fd i)"
  shows "slots_used (s\<lparr>clients := (clients s)[i := sl]\<rparr>)"
  using assms by (auto simp: slots_used_def nth_list_update)

lemma thread_step_used:
  assumes "server_ok c s" and "slots_used s" and "i < length (clients s)"
  shows "slots_used (s\<lparr>clients := (clients s)[i := snd (client_thread_step (clients s ! i))]\<rparr>)"
proof (rule slot_change_used [OF assms(2,3)])
  let ?sl = "clients s ! i"
  have old: "client_active ?sl \<longleftrightarrow> \<not> free_thread ?sl \<or> (\<exists>fd. server_thread s = Server_spawn fd i)"
    using assms(2,3) by (simp add: slots_used_def)
  have spawn: "free_thread ?sl" if "server_thread s = Server_spawn fd i" for fd
    using assms(1) that by (simp add: server_ok_def)
  show "client_active (snd (client_thread_step ?sl)) \<longleftrightarrow>
      \<not> free_thread (snd (client_thread_step ?sl)) \<or> (\<exists>fd. server_thread s = Server_spawn fd i)"
    using old spawn
    by (cases "client_thread ?sl") (auto simp: client_thread_step_def close_client_def Let_def
        free_thread_def)
qed

text \<open>What an event does to the server.\<close>

lemma slot_event_server:
  "prog_server (program_step c Q (Ev_slot i now as) p) =
     (let s = prog_server p; sl = clients s ! i
      in if \<not> i < length (clients s) then s
         else if client_thread sl = Client_in_session
         then (if snd (run_session i now as (prog_net p))
               then s\<lparr>clients := (clients s)[i := sl\<lparr>client_thread := Client_fd_reset\<rparr>]\<rparr> else s)
         else s\<lparr>clients := (clients s)[i := snd (client_thread_step sl)]\<rparr>)"
  by (simp add: program_step_def Let_def split_beta)

lemma other_event_server:
  "(case ev of Ev_server_start \<Rightarrow> False | Ev_server _ _ \<Rightarrow> False | Ev_slot _ _ _ \<Rightarrow> False | _ \<Rightarrow> True) \<Longrightarrow>
     prog_server (program_step c Q ev p) = prog_server p"
  by (cases ev) (simp_all add: program_step_def split_beta)

lemma program_step_used:
  assumes "threads_ok c p" and "slots_used (prog_server p)"
  shows "slots_used (prog_server (program_step c Q ev p))"
proof -
  let ?s = "prog_server p"
  note ok = threads_okD(2) [OF assms(1)]
  show ?thesis
  proof (cases ev)
    case Ev_server_start
    then show ?thesis using assms(2) ok
      by (auto simp: program_step_def tcp_nmea_server_start_def slots_used_def free_thread_def server_ok_def)
  next
    case (Ev_server inp g)
    then show ?thesis using server_step_used [OF ok assms(2), of inp]
      by (simp add: program_step_def split_beta)
  next
    case (Ev_slot i now as)
    have ended: "slots_used (?s\<lparr>clients := (clients ?s)[i := (clients ?s ! i)
          \<lparr>client_thread := Client_fd_reset\<rparr>]\<rparr>)"
      if "i < length (clients ?s)" "client_thread (clients ?s ! i) = Client_in_session"
      by (rule slot_change_used [OF assms(2) that(1)])
        (use assms(2) that in \<open>auto simp: slots_used_def free_thread_def\<close>)
    then show ?thesis using assms(2) thread_step_used [OF ok assms(2), of i] Ev_slot
      by (auto simp: slot_event_server Let_def)
  qed (simp_all only: other_event_server program_event.case assms(2))
qed

lemma start_used: "slots_used (prog_server (program_start c Q q0 g w))"
  by (simp add: program_start_def server_storage_def slots_used_def free_thread_def)

section \<open>The connecting flag of the LED\<close>

definition connecting_flag :: "'q program \<Rightarrow> bool" where
  "connecting_flag p =
     outbound_tcp_nmea_client_connecting (status_led_state (env_led (net_env (prog_net p))))"

definition flag_follows :: "outbound_pc \<Rightarrow> bool \<Rightarrow> bool" where
  "flag_follows pc flag \<longleftrightarrow>
     (case pc of
        Outbound_connect _ \<Rightarrow> flag
      | Outbound_led_off _ \<Rightarrow> flag
      | Outbound_none \<Rightarrow> \<not> flag
      | Outbound_call _ \<Rightarrow> \<not> flag
      | Outbound_in_session \<Rightarrow> \<not> flag
      | Outbound_led_again \<Rightarrow> \<not> flag
      | _ \<Rightarrow> True)"

abbreviation led_flag :: "'q net \<Rightarrow> bool" where
  "led_flag n \<equiv> outbound_tcp_nmea_client_connecting (status_led_state (env_led (net_env n)))"

lemma session_step_flag:
  "outbound_tcp_nmea_client_connecting (status_led_state (env_led (snd (session_step c Q now as s env)))) =
     outbound_tcp_nmea_client_connecting (status_led_state (env_led env))"
  by (cases "sess_pc s") (auto simp: step_unfold led_reports policy_ops
      split: option.split prod.split sum.split)

lemma uart_byte_flag: "led_flag (net_uart_byte c Q e n) = led_flag n"
  by (auto simp: net_uart_byte_def uart_rx_byte_def uart_end_of_line_def count_stat_def Let_def
      led_reports policy_ops split: prod.split sum.split)

lemma net_step_flag:
  "led_flag (net_step c Q ev n) =
     (case ev of
        Client_connecting_report on \<Rightarrow> if status_led_enable c then on else led_flag n
      | _ \<Rightarrow> led_flag n)"
  by (cases ev) (auto simp: uart_byte_flag session_step_flag net_session_step_def Let_def split_beta
      led_reports policy_ops split: option.split)

lemma run_session_flag:
  "led_flag (fold (net_step c Q) (fst (run_session i now as n)) m) = led_flag m"
  by (auto simp: run_session_def net_step_flag split: option.split simp del: net_step.simps)

lemma server_events_flag:
  "led_flag (fold (net_step c Q) (snd (program_local c (Ev_server inp g) p)) m) = led_flag m"
  by (auto simp: net_step_flag split_beta split: option.split simp del: net_step.simps)

lemma slot_events_flag:
  "led_flag (fold (net_step c Q) (snd (program_local c (Ev_slot i now as) p)) m) = led_flag m"
  by (auto simp: net_step_flag run_session_flag Let_def split_beta simp del: net_step.simps)

lemma client_effect_flag:
  "led_flag (fold (net_step c Q) (client_effect_events c g eff) n) =
     (case eff of
        Led_connecting on \<Rightarrow> if status_led_enable c then on else led_flag n
      | _ \<Rightarrow> led_flag n)"
  by (auto simp: client_effect_events_def net_step_flag split: client_effect.split simp del: net_step.simps)

lemma client_step_flag:
  assumes "client_step c inp (cl, w) = ((cl', w'), eff, secs)"
    and "flag_follows (outbound_thread cl) flag" and "outbound_thread cl \<noteq> Outbound_in_session"
  shows "flag_follows (outbound_thread cl') (case eff of Led_connecting on \<Rightarrow> on | _ \<Rightarrow> flag)"
  using assms by (cases "outbound_thread cl")
    (auto simp: client_step_def flag_follows_def split: prod.splits option.splits sum.splits host_pc.splits)

text \<open>The LED observer is compiled in, and its flag says what the client's thread is doing.\<close>

definition led_follows :: "'q program \<Rightarrow> bool" where
  "led_follows p \<longleftrightarrow> flag_follows (outbound_thread (prog_client p)) (connecting_flag p)"

lemma program_step_flag:
  assumes "threads_ok c p" and "status_led_enable c" and "led_follows p"
  shows "led_follows (program_step c Q ev p)"
proof (cases ev)
  case Ev_client_start
  then have "connecting_flag (program_step c Q ev p) = connecting_flag p"
    by (simp add: program_step_def connecting_flag_def split_beta)
  moreover have "outbound_thread (prog_client (program_step c Q ev p)) \<in>
      {outbound_thread (prog_client p), Outbound_host}"
    using Ev_client_start by (auto simp: program_step_def tcp_nmea_client_start_def)
  ultimately show ?thesis using assms(3) by (auto simp: led_follows_def flag_follows_def)
next
  case (Ev_server inp g)
  then show ?thesis using assms(3) server_events_flag [of c Q inp g p "prog_net p"]
    by (simp add: led_follows_def connecting_flag_def program_step_def split_beta del: net_step.simps)
next
  case (Ev_slot i now as)
  have "prog_client (program_step c Q ev p) = prog_client p"
    using Ev_slot by (simp add: program_step_def Let_def split_beta)
  moreover have "connecting_flag (program_step c Q ev p) = connecting_flag p"
    using slot_events_flag [of c Q i now as p "prog_net p"] Ev_slot
    by (simp add: connecting_flag_def program_step_def split_beta
        del: net_step.simps program_local.simps)
  ultimately show ?thesis using assms(3) by (simp add: led_follows_def)
next
  case (Ev_client inp g now as)
  show ?thesis
  proof (cases "outbound_thread (prog_client p) = Outbound_in_session")
    case True
    then show ?thesis using assms(3) Ev_client
      by (simp add: run_session_flag led_follows_def connecting_flag_def program_step_def split_beta
          client_session_returned_def flag_follows_def del: net_step.simps)
  next
    case False
    obtain cl w eff secs where st: "client_step c inp (prog_client p, prog_wifi p) = ((cl, w), eff, secs)"
      by (metis prod.exhaust)
    have "flag_follows (outbound_thread cl)
        (case eff of Led_connecting on \<Rightarrow> on | _ \<Rightarrow> connecting_flag p)"
      using client_step_flag [OF st _ False] assms(3) by (simp add: led_follows_def)
    then show ?thesis using False st Ev_client assms(2)
      by (cases eff) (simp_all add: led_follows_def connecting_flag_def program_step_def
          client_effect_flag del: net_step.simps)
  qed
qed (use assms(3) in \<open>simp_all add: led_follows_def connecting_flag_def program_step_def split_beta
    net_step_flag del: net_step.simps\<close>)

lemma start_flag: "led_follows (program_start c Q q0 g w)"
  by (simp add: led_follows_def connecting_flag_def program_start_def net_start_def
      status_led_storage_def zero_policy_state_def client_storage_def flag_follows_def)

section \<open>Along a run\<close>

interpretation slots_machine: invariant_machine "program_step c Q"
  "\<lambda>p. threads_ok c p \<and> slots_used (prog_server p)" for c Q
  by unfold_locales (simp add: threads_step program_step_used)

interpretation flag_machine: invariant_machine "program_step c Q"
  "\<lambda>p. threads_ok c p \<and> status_led_enable c \<and> led_follows p" for c Q
  by unfold_locales (simp add: threads_step program_step_flag)

lemma run_slots_used: "slots_used (prog_server (program_run c Q q0 g w es))"
proof -
  have "threads_ok c (program_run c Q q0 g w es) \<and> slots_used (prog_server (program_run c Q q0 g w es))"
    unfolding program_run_def by (rule slots_machine.run_inv) (simp add: start_threads_ok start_used)
  then show ?thesis ..
qed

lemma run_led_follows:
  assumes "status_led_enable c"
  shows "led_follows (program_run c Q q0 g w es)"
proof -
  have "threads_ok c (program_run c Q q0 g w es) \<and> status_led_enable c \<and>
      led_follows (program_run c Q q0 g w es)"
    unfolding program_run_def
    by (rule flag_machine.run_inv) (simp add: start_threads_ok start_flag assms)
  then show ?thesis by blast
qed

end
