(* ===== verification/Program_Properties.thy ===== *)
theory Program_Properties
  imports Program_Fds Program_Threads
begin

text \<open>
  The properties of the whole program: what reaches the peers, what the counters say, that no
  connection is turned away for want of a sink and no descriptor is lost.
\<close>

section \<open>Runs of the program as runs of the data path\<close>




lemma session_threads_bound:
  assumes "config_ok c"
  shows "session_threads c \<le> nmea_sinks_max c" and "session_threads c < 65536"
  using assms config_okD(2) [OF assms]
  by (auto simp: session_threads_def outbound_index_def config_ok_def sinks_build_assert_def)

definition program_session :: "nat \<Rightarrow> 'q program \<Rightarrow> session option" where
  "program_session i p = session_at i (prog_net p)"

section \<open>A run of the program, for the witnesses\<close>

text \<open>
  The server starts and accepts a connection; its session opens a sink; a line arrives, is
  dispatched and is sent in two pieces with an interrupted call between them.
\<close>

definition demo_garbage :: garbage where
  "demo_garbage = (\<lparr>sink_id = 7\<rparr>, \<lparr>len = 0, data = []\<rparr>)"

definition demo_events :: "program_event list" where
  "demo_events =
     [Ev_server_start, Ev_server (Setup_answers (Inr 3) success success) demo_garbage,
      Ev_server (Accept_answer (Inr 5)) demo_garbage, Ev_server No_answer demo_garbage,
      Ev_server No_answer demo_garbage,
      Ev_slot 0 0 [], Ev_slot 0 0 [], Ev_slot 0 0 [],
      Ev_uart (36, 1), Ev_uart (10, 1), Ev_dispatch,
      Ev_slot 0 2 [Inr 3, Inl EAGAIN], Ev_slot 0 2 [], Ev_slot 0 3 [Inr 1, Inl EINTR, Inr 1]]"

definition demo_program :: "ref_queue program" where
  "demo_program = program_run uart_config ref_msgq (0, []) (replicate 32 0) wifi_storage demo_events"

lemma uart_config_ok: "config_ok uart_config"
  by (simp add: config_ok_def kconfig_ranges_def sinks_build_assert_def uart_config_def
      small_config_def default_config_def)

definition demo_serving :: session where
  "demo_serving =
     \<lparr>sess_fd = 5, sess_name = Some ''tcp-server-client'', sess_pc = At_drain_again,
      sess_sink = \<lparr>sink_id = 0\<rparr>, sess_frame = \<lparr>len = 2, data = [36, 10]\<rparr>,
      sess_sent = 0, sess_result = TCP_NMEA_SESSION_ENDED_PEER_CLOSED, sess_wire = [36, 10]\<rparr>"

lemma demo_sessions: "net_sessions (prog_net demo_program) = [Some demo_serving, None, None, None]"
  by code_simp

lemma demo_session_0: "program_session 0 demo_program = Some demo_serving"
  by (simp add: program_session_def session_at_def demo_sessions)

section \<open>What the peers receive\<close>

lemma demo_run: "demo_program = program_run uart_config ref_msgq (0, []) (replicate 32 0) wifi_storage demo_events"
  by (rule demo_program_def)

lemma demo_length: "length (replicate 32 (0 :: u8)) = nmea_frame_max_len uart_config"
  by (simp add: uart_config_def small_config_def default_config_def)



text \<open>
  C6: No connection is turned away for want of a sink. With the number of sinks that the
  \<open>BUILD_ASSERT\<close> of the bridge demands, no session of any run of the program ends because
  \<open>nmea_bridge_sink_open\<close> failed.
\<close>

theorem no_session_turned_away:
  assumes "kmsgq Q items depth" and "config_ok c" and "length g = nmea_frame_max_len c"
    and "program_session i (program_run c Q q0 g w es) = Some s"
  shows "sess_pc s \<noteq> At_close_unregistered \<and>
    sess_result s \<noteq> TCP_NMEA_SESSION_ENDED_SINK_UNAVAILABLE"
  using run_admitted [OF assms(1-3) session_threads_bound(1) [OF assms(2)]
      assms(4) [unfolded program_session_def program_net_run]]
  by (simp add: admitted_def)

theorem no_session_turned_away_witness:
  "sess_pc demo_serving \<noteq> At_close_unregistered \<and>
    sess_result demo_serving \<noteq> TCP_NMEA_SESSION_ENDED_SINK_UNAVAILABLE"
  by (rule no_session_turned_away [OF ref.kmsgq_axioms uart_config_ok demo_length
        demo_session_0 [unfolded demo_run]])

section \<open>What the counters say\<close>

text \<open>
  C5: The session counts are right in every state of every run: the sinks in use, the atomic
  counter of active sessions and the status LED's count are the numbers of sessions that stand
  between the operations that raise and lower them, so none of them drifts, underflows or wraps.
\<close>

theorem session_counts_right:
  assumes "kmsgq Q items depth" and "config_ok c" and "length g = nmea_frame_max_len c"
    and "n = prog_net (program_run c Q q0 g w es)"
  shows "length (filter slot_active (sinks (env_bridge (net_env n)))) =
           session_count pc_holds (net_sessions n) \<and>
         unat (active_sessions (net_env n)) = session_count pc_counted (net_sessions n) \<and>
         (status_led_enable c \<longrightarrow>
           unat (active_tcp_nmea_sessions (status_led_state (env_led (net_env n)))) =
             session_count pc_led_counted (net_sessions n))"
  by (rule net_session_counts [OF assms(1-3) session_threads_bound(2) [OF assms(2)]
        assms(4) [unfolded program_net_run]])

theorem session_counts_right_witness:
  "length (filter slot_active (sinks (env_bridge (net_env (prog_net demo_program))))) = 1 \<and>
   unat (active_sessions (net_env (prog_net demo_program))) = 1"
  using session_counts_right [OF ref.kmsgq_axioms uart_config_ok demo_length
      arg_cong [OF demo_run, of prog_net]]
  by (simp add: demo_sessions session_count_def demo_serving_def)

lemma no_fds: "sum_list (replicate k {#}) = {#}"
  by (induction k) simp_all

text \<open>
  C4: Every socket descriptor is accounted for. In every run of the program the descriptors that
  \<open>zsock_socket\<close> and \<open>zsock_accept\<close> have returned to the TCP server and to the outbound client
  are, counted with multiplicity, those passed to \<open>zsock_close\<close> together with those that exactly
  one thread still holds: none leaks and none is closed twice.
\<close>

theorem descriptors_accounted:
  "mset (closed_of (program_run c Q q0 g w es)) + held_fds (program_run c Q q0 g w es) =
     obtained_fds c Q es (program_start c Q q0 g w)"
proof -
  have "closed_of (program_start c Q q0 g w) = []" "held_fds (program_start c Q q0 g w) = {#}"
    by (auto simp: closed_of_def held_fds_def program_start_def net_start_def server_fds_def
        client_fds_def session_fds_def server_storage_def client_storage_def no_fds)
  then show ?thesis
    unfolding program_run_def using fds_accounted [OF start_threads_ok [of c Q q0 g w], of Q es] by simp
qed

section \<open>The TCP server\<close>

lemma claimed_slot:
  "sl\<lparr>client_active := True, client_fd := fd, client_thread := pc\<rparr> =
     \<lparr>client_fd = fd, client_active = True, client_thread = pc\<rparr>"
  by (rule client_slot.equality) simp_all

text \<open>
  How the server admits a connection. When every slot is in use the accepted socket is closed
  and the server goes back to accepting; otherwise the first free slot is claimed, and the next
  step creates the thread that runs a session on that socket. No socket is both kept and closed.
\<close>

theorem server_admits:
  assumes "server_thread s = Server_alloc fd" and "server_step inp s = (s', closes, spawn)"
  shows "spawn = None \<and>
    (if \<forall>sl \<in> set (clients s). client_active sl
     then closes = [fd] \<and> s' = s\<lparr>server_thread := Server_accept\<rparr>
     else closes = [] \<and> (\<exists>i < length (clients s). \<not> client_active (clients s ! i) \<and>
       (\<forall>j < i. client_active (clients s ! j)) \<and>
       server_step inp' s' =
         (s\<lparr>clients := (clients s)[i := \<lparr>client_fd = fd, client_active = True,
              client_thread = Client_in_session\<rparr>], server_thread := Server_accept\<rparr>, [], Some (i, fd))))"
proof -
  have moved: "server_thread (fst (server_step inp s)) \<noteq> Server_alloc fd"
    using assms(1) by (auto simp: server_step_def alloc_client_def split: option.split)
  show ?thesis
  proof (cases rule: server_step_cases [of inp s])
    case (rejected fd')
    then show ?thesis using assms first_free_None [of client_active 0 "clients s"] by simp
  next
    case (claimed fd' i)
    note first = first_free_Some [OF claimed(2)]
    then have "\<not> (\<forall>sl \<in> set (clients s). client_active sl)" by auto
    then show ?thesis using assms claimed first
      by (auto simp: server_step_def claim_client_def alloc_client_def claimed_slot intro!: exI [of _ i])
  qed (use assms(1) moved in simp_all)
qed

theorem server_admits_witness:
  "let s = (server_storage default_config)\<lparr>server_thread := Server_alloc 9\<rparr>;
       (s', closes, spawn) = server_step No_answer s
   in closes = [] \<and> snd (snd (server_step No_answer s')) = Some (0, 9)"
proof -
  let ?s = "(server_storage default_config)\<lparr>server_thread := Server_alloc 9\<rparr>"
  obtain s' closes spawn where st: "server_step No_answer ?s = (s', closes, spawn)"
    by (metis prod.exhaust)
  have cs: "clients ?s ! 0 = \<lparr>client_fd = 0, client_active = False, client_thread = Client_none\<rparr>"
      "\<lparr>client_fd = 0, client_active = False, client_thread = Client_none\<rparr> \<in> set (clients ?s)"
    by (simp_all add: server_storage_def default_config_def)
  have "server_thread ?s = Server_alloc 9" by simp
  note admit = server_admits [OF this st, of No_answer]
  have free: "(\<forall>sl \<in> set (clients ?s). client_active sl) = False" using cs(2) by force
  obtain i where i: "closes = []" "\<forall>j < i. client_active (clients ?s ! j)"
      "snd (snd (server_step No_answer s')) = Some (i, 9)"
    using admit unfolding free if_False by auto
  have "i = 0" using i(2) cs(1) by (cases i) auto
  then show ?thesis using i st by simp
qed

text \<open>
  C22: The server's statistics count its connections. In every state of every run
  \<open>tcp_nmea_server_get_stats\<close> reports as active the slots whose thread runs a session or is
  taking one down, and the slot the server has claimed for a thread it is about to create: no
  slot is lost, and a slot without a thread is free again.
\<close>

theorem server_slots_accounted:
  assumes "s = prog_server (program_run c Q q0 g w es)" and "config_ok c"
    and "tcp_nmea_server_get_stats s (Some x) = Some st"
  shows "unat (active_clients st) =
      card {i. i < tcp_nmea_server_max_clients c \<and>
        (client_thread (clients s ! i) \<in> {Client_in_session, Client_fd_reset, Client_closing} \<or>
         (\<exists>fd. server_thread s = Server_spawn fd i))} \<and>
    unat (max_clients st) = tcp_nmea_server_max_clients c"
proof -
  have len: "length (clients s) = tcp_nmea_server_max_clients c"
    using threads_okD(2) [OF run_threads_ok [of c Q q0 g w es]] assms(1) by (simp add: server_ok_def)
  then have small: "length (clients s) \<le> 8" using config_okD(8) [OF assms(2)] by simp
  have active: "client_active (clients s ! i) \<longleftrightarrow>
      client_thread (clients s ! i) \<in> {Client_in_session, Client_fd_reset, Client_closing} \<or>
      (\<exists>fd. server_thread s = Server_spawn fd i)" if "i < length (clients s)" for i
    using run_slots_used [of c Q q0 g w es] that unfolding assms(1) slots_used_def free_thread_def
    by (cases "client_thread (clients s ! i)") (auto simp: assms(1))
  have val: "unat (word_of_nat k :: u32) = k" if "k \<le> 8" for k
    using that by (simp add: unat_of_nat)
  have "length (filter client_active (clients s)) \<le> 8"
    using length_filter_le [of client_active "clients s"] small by (rule le_trans)
  then have "unat (active_clients st) = length (filter client_active (clients s))"
    using assms(3) val by (auto simp: tcp_nmea_server_get_stats_def count_active_eq)
  also have "\<dots> = card {i. i < length (clients s) \<and> client_active (clients s ! i)}"
    by (rule length_filter_conv_card)
  also have "{i. i < length (clients s) \<and> client_active (clients s ! i)} =
      {i. i < tcp_nmea_server_max_clients c \<and>
        (client_thread (clients s ! i) \<in> {Client_in_session, Client_fd_reset, Client_closing} \<or>
         (\<exists>fd. server_thread s = Server_spawn fd i))}"
    using active len by auto
  finally show ?thesis
    using assms(3) len small by (auto simp: tcp_nmea_server_get_stats_def val)
qed

text \<open>The server of the run above.\<close>

lemma demo_server:
  "prog_server demo_program = \<lparr>listen_fd = 3, server_started = True, server_thread = Server_accept,
     clients = \<lparr>client_fd = 5, client_active = True, client_thread = Client_in_session\<rparr> #
       replicate 2 \<lparr>client_fd = - 1, client_active = False, client_thread = Client_none\<rparr>\<rparr>"
  by code_simp

theorem server_slots_accounted_witness:
  "\<exists>st. tcp_nmea_server_get_stats (prog_server demo_program) (Some \<lparr>active_clients = 0, max_clients = 0\<rparr>) =
     Some st \<and> unat (active_clients st) = 1 \<and> unat (max_clients st) = 3"
proof -
  let ?x = "\<lparr>active_clients = 0, max_clients = 0\<rparr>"
  obtain st where st: "tcp_nmea_server_get_stats (prog_server demo_program) (Some ?x) = Some st"
    by (simp add: tcp_nmea_server_get_stats_def)
  have max: "tcp_nmea_server_max_clients uart_config = 3"
    by (simp add: uart_config_def small_config_def default_config_def)
  have "client_thread (clients (prog_server demo_program) ! i) = Client_none" if "i < 3" "i \<noteq> 0" for i
    using that by (cases i) (auto simp: demo_server)
  then have "i = 0" if "i < 3" "client_thread (clients (prog_server demo_program) ! i) \<noteq> Client_none" for i
    using that by blast
  then have "{i. i < 3 \<and> (client_thread (clients (prog_server demo_program) ! i)
        \<in> {Client_in_session, Client_fd_reset, Client_closing} \<or>
      (\<exists>fd. server_thread (prog_server demo_program) = Server_spawn fd i))} = {0}"
    by (rule_tac set_eqI) (force simp: demo_server)
  then show ?thesis
    using server_slots_accounted [OF arg_cong [OF demo_run, of prog_server] uart_config_ok st] st
    by (simp add: max)
qed

text \<open>
  A slot can be reused while its thread still runs. \<open>close_client\<close> marks the slot free before
  \<open>client_thread\<close> has returned, and nothing waits for the thread: in this run the server has
  claimed slot 0 for the next connection and is about to create a thread in it, with the same
  \<open>struct k_thread\<close> and the same stack, while the previous thread of the slot has not ended.
\<close>

definition reuse_events :: "program_event list" where
  "reuse_events =
     [Ev_server_start, Ev_server (Setup_answers (Inr 3) success success) demo_garbage,
      Ev_server (Accept_answer (Inr 5)) demo_garbage, Ev_server No_answer demo_garbage,
      Ev_server No_answer demo_garbage,
      Ev_slot 0 0 [], Ev_slot 0 0 [], Ev_slot 0 0 [], Ev_slot 0 2 [Inr 0], Ev_slot 0 2 [],
      Ev_slot 0 2 [], Ev_slot 0 2 [], Ev_slot 0 2 [], Ev_slot 0 2 [], Ev_slot 0 2 [], Ev_slot 0 2 [],
      Ev_server (Accept_answer (Inr 6)) demo_garbage, Ev_server No_answer demo_garbage]"

theorem slot_reused_while_exiting:
  "let s = prog_server (program_run uart_config ref_msgq (0, []) (replicate 32 0) wifi_storage
             reuse_events)
   in server_thread s = Server_spawn 6 0 \<and> client_active (clients s ! 0) \<and>
      client_thread (clients s ! 0) = Client_exiting"
proof -
  have "prog_server (program_run uart_config ref_msgq (0, []) (replicate 32 0) wifi_storage
      reuse_events) = \<lparr>listen_fd = 3, server_started = True, server_thread = Server_spawn 6 0,
     clients = \<lparr>client_fd = - 1, client_active = True, client_thread = Client_exiting\<rparr> #
       replicate 2 \<lparr>client_fd = - 1, client_active = False, client_thread = Client_none\<rparr>\<rparr>"
    by code_simp
  then show ?thesis by simp
qed

section \<open>The status LED\<close>

text \<open>
  C9: The status LED tells the truth about the connections. In every state of every run its base
  state is "connected" exactly when a session has reported its start and not yet its end; while
  the outbound client is connecting it is never "disconnected"; and it is "connecting" only while
  the client has no session.
\<close>

theorem led_shows_connections:
  assumes "kmsgq Q items depth" and "config_ok c" and "length g = nmea_frame_max_len c"
    and "status_led_enable c" and "p = program_run c Q q0 g w es"
    and "base = status_led_policy_base_state (status_led_state (env_led (net_env (prog_net p))))"
  shows "(base = STATUS_LED_BASE_CONNECTED \<longleftrightarrow> 0 < session_count pc_led_counted (net_sessions (prog_net p))) \<and>
    ((\<exists>h. outbound_thread (prog_client p) = Outbound_connect h) \<longrightarrow> base \<noteq> STATUS_LED_BASE_DISCONNECTED) \<and>
    (base = STATUS_LED_BASE_CONNECTING \<longrightarrow>
       outbound_thread (prog_client p) \<notin> {Outbound_none, Outbound_in_session, Outbound_led_again})"
proof -
  have "unat (active_tcp_nmea_sessions (status_led_state (env_led (net_env (prog_net p))))) =
      session_count pc_led_counted (net_sessions (prog_net p))"
    using net_session_counts [OF assms(1-3) session_threads_bound(2) [OF assms(2)]
        program_net_run [of c Q q0 g w es]] assms(4,5) by simp
  then have count: "0 < active_tcp_nmea_sessions (status_led_state (env_led (net_env (prog_net p)))) \<longleftrightarrow>
      0 < session_count pc_led_counted (net_sessions (prog_net p))"
    by (simp add: word_gt_0_unat)
  have "flag_follows (outbound_thread (prog_client p)) (connecting_flag p)"
    using run_led_follows [OF assms(4), of Q q0 g w es] assms(5) by (simp add: led_follows_def)
  then show ?thesis using count assms(6)
    by (auto simp: status_led_policy_base_state_def flag_follows_def connecting_flag_def)
qed

theorem led_shows_connections_witness:
  "status_led_policy_base_state (status_led_state (env_led (net_env (prog_net demo_program)))) =
     STATUS_LED_BASE_CONNECTED"
proof -
  have "status_led_enable uart_config"
    by (simp add: uart_config_def small_config_def default_config_def)
  note led = led_shows_connections [OF ref.kmsgq_axioms uart_config_ok demo_length this demo_run refl]
  have "0 < session_count pc_led_counted (net_sessions (prog_net demo_program))"
    by (simp add: demo_sessions session_count_def demo_serving_def)
  then show ?thesis using led by simp
qed

end
