(* ===== verification/Telemetry.thy ===== *)
theory Telemetry
  imports Uart Server Session Wifi
begin

text \<open>
  \<open>src/bridge_telemetry.c\<close> and \<open>src/bridge_telemetry.h\<close>: the snapshot of the bridge's state that the
  web app shows. The instants are those of \<open>k_uptime_get\<close>.
\<close>

section \<open>Data\<close>

definition BRIDGE_TELEMETRY_NMEA_INPUT_WINDOW_MS :: int where
  "BRIDGE_TELEMETRY_NMEA_INPUT_WINDOW_MS = 5000"

datatype bridge_telemetry_nmea_connection_state =
    BRIDGE_TELEMETRY_NMEA_DISCONNECTED
  | BRIDGE_TELEMETRY_NMEA_CONNECTED

datatype bridge_telemetry_nmea_input_state =
    BRIDGE_TELEMETRY_NMEA_INPUT_IDLE
  | BRIDGE_TELEMETRY_NMEA_INPUT_ACTIVE

text \<open>The counters and the inputs have the same field names in the code: \<open>c_\<close> and \<open>i_\<close> here.\<close>

record bridge_telemetry_counters =
  c_uart_bytes_rx :: u32
  c_uart_lines_rx :: u32
  c_uart_overlong_lines :: u32
  c_bridge_frames_in :: u32
  c_bridge_ingest_dropped_oldest :: u32
  c_bridge_sink_dropped_oldest :: u32
  c_bridge_publish_no_sinks :: u32
  c_bridge_publish_invalid :: u32
  c_bridge_publish_oversize :: u32
  c_tcp_nmea_active_sessions :: u32
  c_tcp_server_active_clients :: u32
  c_tcp_server_max_clients :: u32

record bridge_telemetry_warnings =
  data_quality :: bool
  frame_loss :: bool

record bridge_telemetry_snapshot =
  connection_state :: bridge_telemetry_nmea_connection_state
  input_state :: bridge_telemetry_nmea_input_state
  warnings :: bridge_telemetry_warnings
  snapshot_sta_ready :: bool
  counters :: bridge_telemetry_counters

record bridge_telemetry_inputs =
  i_uart_bytes_rx :: u32
  i_uart_lines_rx :: u32
  i_uart_overlong_lines :: u32
  i_bridge_frames_in :: u32
  i_bridge_ingest_dropped_oldest :: u32
  i_bridge_sink_dropped_oldest :: u32
  i_bridge_publish_no_sinks :: u32
  i_bridge_publish_invalid :: u32
  i_bridge_publish_oversize :: u32
  i_tcp_nmea_active_sessions :: u32
  i_tcp_server_active_clients :: u32
  i_tcp_server_max_clients :: u32
  i_sta_ready :: bool

text \<open>\<open>last_bridge_frame_ms\<close> is an \<open>int64_t\<close>, with \<open>INT64_MIN\<close> for "never".\<close>

record bridge_telemetry_state =
  last_bridge_frames_in :: u32
  last_bridge_frame_ms :: int
  initialized :: bool

definition INT64_MIN :: int where
  "INT64_MIN = - (2 ^ 63)"

definition telemetry_storage :: bridge_telemetry_state where
  "telemetry_storage = \<lparr>last_bridge_frames_in = 0, last_bridge_frame_ms = 0, initialized = False\<rparr>"

section \<open>Building a snapshot\<close>

definition copy_counters :: "bridge_telemetry_inputs \<Rightarrow> bridge_telemetry_counters" where
  "copy_counters inputs =
     \<lparr>c_uart_bytes_rx = i_uart_bytes_rx inputs,
      c_uart_lines_rx = i_uart_lines_rx inputs,
      c_uart_overlong_lines = i_uart_overlong_lines inputs,
      c_bridge_frames_in = i_bridge_frames_in inputs,
      c_bridge_ingest_dropped_oldest = i_bridge_ingest_dropped_oldest inputs,
      c_bridge_sink_dropped_oldest = i_bridge_sink_dropped_oldest inputs,
      c_bridge_publish_no_sinks = i_bridge_publish_no_sinks inputs,
      c_bridge_publish_invalid = i_bridge_publish_invalid inputs,
      c_bridge_publish_oversize = i_bridge_publish_oversize inputs,
      c_tcp_nmea_active_sessions = i_tcp_nmea_active_sessions inputs,
      c_tcp_server_active_clients = i_tcp_server_active_clients inputs,
      c_tcp_server_max_clients = i_tcp_server_max_clients inputs\<rparr>"

definition note_frames ::
    "bridge_telemetry_inputs \<Rightarrow> int \<Rightarrow> bridge_telemetry_state \<Rightarrow> bridge_telemetry_state" where
  "note_frames inputs now_ms state =
     (if \<not> initialized state
      then \<lparr>last_bridge_frames_in = i_bridge_frames_in inputs,
            last_bridge_frame_ms = (if 0 < i_bridge_frames_in inputs then now_ms else INT64_MIN),
            initialized = True\<rparr>
      else if i_bridge_frames_in inputs \<noteq> last_bridge_frames_in state
      then state\<lparr>last_bridge_frames_in := i_bridge_frames_in inputs, last_bridge_frame_ms := now_ms\<rparr>
      else state)"

definition snapshot_of ::
    "bridge_telemetry_state \<Rightarrow> bridge_telemetry_inputs \<Rightarrow> int \<Rightarrow> bridge_telemetry_snapshot" where
  "snapshot_of state inputs now_ms =
     \<lparr>connection_state =
        (if 0 < i_tcp_nmea_active_sessions inputs then BRIDGE_TELEMETRY_NMEA_CONNECTED
         else BRIDGE_TELEMETRY_NMEA_DISCONNECTED),
      input_state =
        (if last_bridge_frame_ms state = INT64_MIN then BRIDGE_TELEMETRY_NMEA_INPUT_IDLE
         else if now_ms - last_bridge_frame_ms state \<le> BRIDGE_TELEMETRY_NMEA_INPUT_WINDOW_MS
         then BRIDGE_TELEMETRY_NMEA_INPUT_ACTIVE
         else BRIDGE_TELEMETRY_NMEA_INPUT_IDLE),
      warnings =
        \<lparr>data_quality = (0 < i_uart_overlong_lines inputs \<or> 0 < i_bridge_publish_invalid inputs \<or>
           0 < i_bridge_publish_oversize inputs),
         frame_loss = (0 < i_bridge_ingest_dropped_oldest inputs \<or>
           0 < i_bridge_sink_dropped_oldest inputs)\<rparr>,
      snapshot_sta_ready = i_sta_ready inputs,
      counters = copy_counters inputs\<rparr>"

text \<open>The pointers are options: the result is what they point to afterwards.\<close>

definition bridge_telemetry_build_snapshot ::
    "bridge_telemetry_state option \<Rightarrow> bridge_telemetry_inputs option \<Rightarrow> int
       \<Rightarrow> bridge_telemetry_snapshot option
       \<Rightarrow> bridge_telemetry_state option \<times> bridge_telemetry_snapshot option" where
  "bridge_telemetry_build_snapshot state inputs now_ms snapshot =
     (case (state, inputs, snapshot) of
        (Some st, Some inp, Some _) \<Rightarrow>
          (let st' = note_frames inp now_ms st
           in (Some st', Some (snapshot_of st' inp now_ms)))
      | _ \<Rightarrow> (state, snapshot))"

text \<open>
  \<open>collect_inputs\<close> asks the components one after the other; each argument is the state of one of
  them at the instant it is asked, and \<open>ready\<close> what the call of \<open>wifi_manager_sta_ready\<close> returns.
  The locals that receive the statistics are not initialised.
\<close>

record stats_locals =
  uart_local :: uart_nmea_stats
  bridge_local :: nmea_bridge_stats
  server_local :: tcp_nmea_server_stats
  session_local :: tcp_nmea_session_stats

definition collect_inputs ::
    "stats_locals \<Rightarrow> uart_nmea \<Rightarrow> 'q bridge \<Rightarrow> tcp_server \<Rightarrow> u32 \<Rightarrow> bool \<Rightarrow> bridge_telemetry_inputs" where
  "collect_inputs locals u b s active ready =
     (let us = the (uart_nmea_get_stats u (Some (uart_local locals)));
          bs = the (nmea_bridge_get_stats b (Some (bridge_local locals)));
          ss = the (tcp_nmea_server_get_stats s (Some (server_local locals)));
          ts = the (tcp_nmea_session_get_stats active (Some (session_local locals)))
      in \<lparr>i_uart_bytes_rx = bytes_rx us,
          i_uart_lines_rx = lines_rx us,
          i_uart_overlong_lines = overlong_lines us,
          i_bridge_frames_in = frames_in bs,
          i_bridge_ingest_dropped_oldest = ingest_dropped_oldest bs,
          i_bridge_sink_dropped_oldest = sink_dropped_oldest bs,
          i_bridge_publish_no_sinks = publish_no_sinks bs,
          i_bridge_publish_invalid = publish_invalid bs,
          i_bridge_publish_oversize = publish_oversize bs,
          i_tcp_nmea_active_sessions = stat_active_sessions ts,
          i_tcp_server_active_clients = active_clients ss,
          i_tcp_server_max_clients = max_clients ss,
          i_sta_ready = ready\<rparr>)"

text \<open>The static \<open>telemetry_state\<close> is the argument \<open>state\<close>.\<close>

definition bridge_telemetry_get_snapshot ::
    "stats_locals \<Rightarrow> uart_nmea \<Rightarrow> 'q bridge \<Rightarrow> tcp_server \<Rightarrow> u32 \<Rightarrow> bool \<Rightarrow> int
       \<Rightarrow> bridge_telemetry_snapshot option \<Rightarrow> bridge_telemetry_state
       \<Rightarrow> bridge_telemetry_snapshot option \<times> bridge_telemetry_state" where
  "bridge_telemetry_get_snapshot locals u b s active ready now_ms snapshot state =
     (case snapshot of
        None \<Rightarrow> (None, state)
      | Some _ \<Rightarrow>
          (let inputs = collect_inputs locals u b s active ready;
               (st, snap) = bridge_telemetry_build_snapshot (Some state) (Some inputs) now_ms snapshot
           in (snap, the st)))"

end
