(* ===== verification/Telemetry_Facts.thy ===== *)
theory Telemetry_Facts
  imports Telemetry
begin

text \<open>What the snapshots of a series of polls say about the input, and what one says of its inputs.\<close>

section \<open>A series of polls\<close>

text \<open>A poll is the inputs it collects and its instant.\<close>

type_synonym poll = "bridge_telemetry_inputs \<times> int"

definition poll_step ::
    "poll \<Rightarrow> bridge_telemetry_state option \<times> bridge_telemetry_snapshot option
       \<Rightarrow> bridge_telemetry_state option \<times> bridge_telemetry_snapshot option" where
  "poll_step p s = bridge_telemetry_build_snapshot (fst s) (Some (fst p)) (snd p) (snd s)"

definition polled ::
    "bridge_telemetry_snapshot \<Rightarrow> poll list
       \<Rightarrow> bridge_telemetry_state option \<times> bridge_telemetry_snapshot option" where
  "polled snapshot ps = fold poll_step ps (Some telemetry_storage, Some snapshot)"

text \<open>Poll \<open>j\<close> finds a count of frames that the poll before it did not find.\<close>

definition new_frames :: "poll list \<Rightarrow> nat \<Rightarrow> bool" where
  "new_frames ps j \<longleftrightarrow> j < length ps \<and>
     i_bridge_frames_in (fst (ps ! j)) \<noteq> (if j = 0 then 0 else i_bridge_frames_in (fst (ps ! (j - 1))))"

text \<open>The instant of the last poll that found new frames.\<close>

definition state_after :: "poll list \<Rightarrow> bridge_telemetry_state \<Rightarrow> bool" where
  "state_after ps st \<longleftrightarrow>
     (if ps = [] then \<not> initialized st
      else initialized st \<and> last_bridge_frames_in st = i_bridge_frames_in (fst (last ps)) \<and>
        ((\<forall>j. \<not> new_frames ps j) \<and> last_bridge_frame_ms st = INT64_MIN \<or>
         (\<exists>j. new_frames ps j \<and> (\<forall>k > j. \<not> new_frames ps k) \<and> last_bridge_frame_ms st = snd (ps ! j))))"

lemma new_frames_snoc:
  "new_frames (ps @ [p]) j \<longleftrightarrow>
     (if j < length ps then new_frames ps j
      else j = length ps \<and>
        i_bridge_frames_in (fst p) \<noteq> (if ps = [] then 0 else i_bridge_frames_in (fst (last ps))))"
proof (cases "j = length ps")
  case True
  then show ?thesis by (cases "ps = []") (auto simp: new_frames_def nth_append last_conv_nth)
qed (auto simp: new_frames_def nth_append)

lemma new_frames_single: "new_frames [p] j \<longleftrightarrow> j = 0 \<and> i_bridge_frames_in (fst p) \<noteq> 0"
  by (auto simp: new_frames_def)

lemma new_frames_bound: "new_frames ps j \<Longrightarrow> j < length ps"
  by (simp add: new_frames_def)

lemma state_after_step:
  assumes "state_after ps st"
  shows "state_after (ps @ [p]) (note_frames (fst p) (snd p) st)"
proof (cases "ps = []")
  case True
  then show ?thesis using assms
    by (auto simp: state_after_def note_frames_def new_frames_single word_gt_0)
next
  case ne: False
  then have init: "initialized st" and count: "last_bridge_frames_in st = i_bridge_frames_in (fst (last ps))"
    using assms by (simp_all add: state_after_def)
  show ?thesis
  proof (cases "i_bridge_frames_in (fst p) = last_bridge_frames_in st")
    case True
    then have same: "new_frames (ps @ [p]) j \<longleftrightarrow> new_frames ps j" for j
      using ne count by (auto simp: new_frames_snoc dest: new_frames_bound)
    have at: "(ps @ [p]) ! j = ps ! j" if "new_frames ps j" for j
      using new_frames_bound [OF that] by (simp add: nth_append)
    show ?thesis using assms ne True init at
      by (auto simp: state_after_def note_frames_def same)
  next
    case False
    then have "new_frames (ps @ [p]) (length ps)" and "\<forall>k > length ps. \<not> new_frames (ps @ [p]) k"
      using ne count by (simp_all add: new_frames_snoc)
    then show ?thesis using False init
      by (auto simp: state_after_def note_frames_def intro!: exI [of _ "length ps"])
  qed
qed

lemma polled_state:
  "\<exists>st. state_after ps st \<and> fst (polled snapshot ps) = Some st \<and>
     (ps \<noteq> [] \<longrightarrow> snd (polled snapshot ps) = Some (snapshot_of st (fst (last ps)) (snd (last ps)))) \<and>
     snd (polled snapshot ps) \<noteq> None"
proof (induction ps rule: rev_induct)
  case Nil
  then show ?case by (simp add: polled_def state_after_def telemetry_storage_def)
next
  case (snoc p ps)
  then obtain st old where st: "state_after ps st" "polled snapshot ps = (Some st, Some old)"
    by (cases "polled snapshot ps") auto
  then show ?case using state_after_step [OF st(1), of p]
    by (auto simp: polled_def poll_step_def bridge_telemetry_build_snapshot_def Let_def)
qed

text \<open>The instants of polls in order are bounded by that of the last poll with new frames.\<close>

lemma newest_poll:
  assumes "sorted (map snd ps)" and "new_frames ps i" and "new_frames ps j" and "\<forall>k > j. \<not> new_frames ps k"
  shows "snd (ps ! i) \<le> snd (ps ! j)"
proof -
  have "i \<le> j" using assms(2,4) by (meson not_le)
  moreover have "j < length ps" by (rule new_frames_bound [OF assms(3)])
  ultimately have "map snd ps ! i \<le> map snd ps ! j" "i < length ps"
    using sorted_nth_mono [OF assms(1)] by simp_all
  then show ?thesis using \<open>j < length ps\<close> by (simp only: nth_map)
qed

text \<open>
  C29: When the input counts as active. After any series of polls at non-decreasing instants the
  snapshot says that the NMEA input is active exactly when some poll not more than 5 s before the
  last one found a count of accepted frames different from the one before it (or, for the first
  poll, different from 0).
\<close>

theorem input_active_iff_recent_frames:
  assumes "sorted (map snd (ps @ [p]))" and "\<forall>q \<in> set (ps @ [p]). 0 \<le> snd q"
    and "snd (polled snapshot (ps @ [p])) = Some snap"
  shows "input_state snap = BRIDGE_TELEMETRY_NMEA_INPUT_ACTIVE \<longleftrightarrow>
    (\<exists>j. new_frames (ps @ [p]) j \<and>
       snd p - snd ((ps @ [p]) ! j) \<le> BRIDGE_TELEMETRY_NMEA_INPUT_WINDOW_MS)"
proof -
  let ?ps = "ps @ [p]"
  obtain st where st: "state_after ?ps st" "snap = snapshot_of st (fst p) (snd p)"
    using polled_state [of ?ps snapshot] assms(3) by auto
  have "0 \<le> snd (?ps ! j)" if "new_frames ?ps j" for j
    using assms(2) nth_mem [OF new_frames_bound [OF that]] by blast
  then have valid: "snd (?ps ! j) \<noteq> INT64_MIN" if "new_frames ?ps j" for j
    using that by (fastforce simp: INT64_MIN_def)
  from st(1) consider "\<forall>j. \<not> new_frames ?ps j" "last_bridge_frame_ms st = INT64_MIN"
    | j where "new_frames ?ps j" "\<forall>k > j. \<not> new_frames ?ps k" "last_bridge_frame_ms st = snd (?ps ! j)"
    by (auto simp: state_after_def)
  then show ?thesis
  proof cases
    case 1
    then show ?thesis by (simp add: st(2) snapshot_of_def)
  next
    case (2 j)
    have "input_state snap = BRIDGE_TELEMETRY_NMEA_INPUT_ACTIVE \<longleftrightarrow>
        snd p - snd (?ps ! j) \<le> BRIDGE_TELEMETRY_NMEA_INPUT_WINDOW_MS"
      using 2(3) valid [OF 2(1)] unfolding st(2) snapshot_of_def by simp
    also have "\<dots> \<longleftrightarrow> (\<exists>i. new_frames ?ps i \<and>
        snd p - snd (?ps ! i) \<le> BRIDGE_TELEMETRY_NMEA_INPUT_WINDOW_MS)"
      using newest_poll [OF assms(1) _ 2(1,2)] 2(1) by (meson diff_left_mono order_trans)
    finally show ?thesis .
  qed
qed

text \<open>Inputs with a given number of accepted frames and everything else zero.\<close>

definition demo_inputs :: "u32 \<Rightarrow> bridge_telemetry_inputs" where
  "demo_inputs frames =
     \<lparr>i_uart_bytes_rx = 0, i_uart_lines_rx = 0, i_uart_overlong_lines = 0,
      i_bridge_frames_in = frames, i_bridge_ingest_dropped_oldest = 0,
      i_bridge_sink_dropped_oldest = 0, i_bridge_publish_no_sinks = 0,
      i_bridge_publish_invalid = 0, i_bridge_publish_oversize = 0, i_tcp_nmea_active_sessions = 0,
      i_tcp_server_active_clients = 0, i_tcp_server_max_clients = 3, i_sta_ready = True\<rparr>"

definition demo_snapshot :: bridge_telemetry_snapshot where
  "demo_snapshot = snapshot_of telemetry_storage (demo_inputs 0) 0"

lemma demo_polled:
  "\<exists>snap. snd (polled demo_snapshot (ps @ [p])) = Some snap"
  using polled_state [of "ps @ [p]" demo_snapshot] by auto

theorem input_active_iff_recent_frames_witness:
  "\<exists>snap. snd (polled demo_snapshot [(demo_inputs 4, 1000), (demo_inputs 4, 6001)]) = Some snap \<and>
     input_state snap \<noteq> BRIDGE_TELEMETRY_NMEA_INPUT_ACTIVE"
proof -
  let ?ps = "[(demo_inputs 4, 1000 :: int)]" and ?p = "(demo_inputs 4, 6001 :: int)"
  obtain snap where snap: "snd (polled demo_snapshot (?ps @ [?p])) = Some snap"
    using demo_polled by blast
  have "\<not> (\<exists>j. new_frames (?ps @ [?p]) j \<and>
      snd ?p - snd ((?ps @ [?p]) ! j) \<le> BRIDGE_TELEMETRY_NMEA_INPUT_WINDOW_MS)"
    by (auto simp: new_frames_def demo_inputs_def BRIDGE_TELEMETRY_NMEA_INPUT_WINDOW_MS_def
        less_Suc_eq)
  then show ?thesis using input_active_iff_recent_frames [OF _ _ snap] snap by simp
qed

text \<open>
  The window is measured between polls, not between frames. A poll that finds a new count of
  frames says "active", however long ago the frames came: after a pause of any length without a
  poll the first snapshot reports as active an input that has been silent since.
\<close>

theorem first_poll_reports_active:
  assumes "snd (polled snapshot (ps @ [p])) = Some snap" and "0 \<le> snd p"
    and "i_bridge_frames_in (fst p) \<noteq> (if ps = [] then 0 else i_bridge_frames_in (fst (last ps)))"
  shows "input_state snap = BRIDGE_TELEMETRY_NMEA_INPUT_ACTIVE"
proof -
  obtain st where st: "state_after (ps @ [p]) st" "snap = snapshot_of st (fst p) (snd p)"
    using polled_state [of "ps @ [p]" snapshot] assms(1) by auto
  have "new_frames (ps @ [p]) (length ps)" using assms(3) by (simp add: new_frames_snoc)
  then have "last_bridge_frame_ms st = snd p"
    using st(1) unfolding state_after_def
    by (metis append_is_Nil_conv length_append_singleton less_SucE new_frames_bound not_Cons_self2
        nth_append_length)
  then show ?thesis using assms(2)
    by (simp add: st(2) snapshot_of_def INT64_MIN_def BRIDGE_TELEMETRY_NMEA_INPUT_WINDOW_MS_def)
qed

theorem first_poll_reports_active_witness:
  "\<exists>snap. snd (polled demo_snapshot [(demo_inputs 0, 0), (demo_inputs 1, 3600000)]) = Some snap \<and>
     input_state snap = BRIDGE_TELEMETRY_NMEA_INPUT_ACTIVE"
proof -
  let ?ps = "[(demo_inputs 0, 0 :: int)]" and ?p = "(demo_inputs 1, 3600000 :: int)"
  obtain snap where snap: "snd (polled demo_snapshot (?ps @ [?p])) = Some snap"
    using demo_polled by blast
  then show ?thesis using first_poll_reports_active [OF snap] by (simp add: demo_inputs_def)
qed

section \<open>One snapshot\<close>

text \<open>
  What a snapshot says of the counters. \<open>bridge_telemetry_get_snapshot\<close> reports "connected"
  exactly when the count of active sessions is not 0, a data quality warning exactly when an
  overlong line, an invalid or an oversize frame has been counted, a loss warning exactly when a
  queue has dropped a frame, and the counters as they are; frames published while no sink was
  open are no warning. Without a place for the snapshot nothing is changed.
\<close>

theorem snapshot_spec:
  "bridge_telemetry_get_snapshot locals u b s active ready now None state = (None, state) \<and>
   (case bridge_telemetry_get_snapshot locals u b s active ready now (Some old) state of
      (snap, st) \<Rightarrow> \<exists>x. snap = Some x \<and>
        (connection_state x = BRIDGE_TELEMETRY_NMEA_CONNECTED \<longleftrightarrow> active \<noteq> 0) \<and>
        (data_quality (warnings x) \<longleftrightarrow> overlong_lines (uart_stats u) \<noteq> 0 \<or>
           publish_invalid (bridge_stats b) \<noteq> 0 \<or> publish_oversize (bridge_stats b) \<noteq> 0) \<and>
        (frame_loss (warnings x) \<longleftrightarrow> ingest_dropped_oldest (bridge_stats b) \<noteq> 0 \<or>
           sink_dropped_oldest (bridge_stats b) \<noteq> 0) \<and>
        snapshot_sta_ready x = ready \<and>
        c_bridge_frames_in (counters x) = frames_in (bridge_stats b) \<and>
        c_tcp_nmea_active_sessions (counters x) = active \<and>
        last_bridge_frames_in st = frames_in (bridge_stats b) \<and> initialized st)"
  by (auto simp: bridge_telemetry_get_snapshot_def bridge_telemetry_build_snapshot_def
      collect_inputs_def snapshot_of_def copy_counters_def note_frames_def Let_def split_beta
      uart_nmea_get_stats_def nmea_bridge_get_stats_def tcp_nmea_server_get_stats_def
      tcp_nmea_session_get_stats_def word_gt_0)

end
