(* ===== verification/Program_Status.thy ===== *)
theory Program_Status
  imports Program_Properties Telemetry_Facts
begin

text \<open>
  The telemetry of the running program: what a snapshot taken between any two steps of a run says
  about the sessions, the server's slots and the counters.
\<close>

section \<open>The counters of the serial line and of the bridge\<close>

text \<open>
  Every line counted by the serial thread is counted by the bridge, and the bridge refuses none.
\<close>

definition lines_counted :: "nmea_bridge_stats \<Rightarrow> uart_nmea_stats \<Rightarrow> bool" where
  "lines_counted bs us \<longleftrightarrow>
     frames_in bs = lines_rx us \<and> publish_invalid bs = 0 \<and> publish_oversize bs = 0"

lemma lines_counted_adds:
  assumes "uart_adds c Q n ls k w w'" and "\<forall>l \<in> set ls. 0 < length l \<and> length l \<le> nmea_frame_max_len c"
    and "lines_counted (bridge_stats (uart_bridge w)) (uart_stats (uart_nmea_of w))"
  shows "lines_counted (bridge_stats (uart_bridge w')) (uart_stats (uart_nmea_of w'))"
  using uart_publishes_stats [OF assms(2), of Q "uart_bridge w"] assms(1,3)
  by (simp add: uart_adds_def lines_counted_def)

lemma byte_counted:
  assumes "uart_thread_ok c (uart_rx w)"
    and "lines_counted (bridge_stats (uart_bridge w)) (uart_stats (uart_nmea_of w))"
  shows "lines_counted (bridge_stats (uart_bridge (uart_rx_byte c Q e w)))
    (uart_stats (uart_nmea_of (uart_rx_byte c Q e w)))"
proof -
  obtain ch now where e: "e = (ch, now)" by (cases e)
  from byte_adds [OF assms(1) refl, where Q = Q and ch = ch and now = now] show ?thesis
    unfolding e by (metis lines_counted_adds [OF _ _ assms(2)])
qed

definition counts_agree :: "app_config \<Rightarrow> 'q net \<Rightarrow> bool" where
  "counts_agree c n \<longleftrightarrow> uart_thread_ok c (net_rx n) \<and>
     lines_counted (bridge_stats (env_bridge (net_env n))) (uart_stats (net_uart n))"

text \<open>Only the serial thread and the dispatcher touch the counters of the bridge.\<close>

lemma dispatch_counted:
  assumes "dispatcher_iteration Q b = Some b'"
  shows "lines_counted (bridge_stats b') us = lines_counted (bridge_stats b) us"
proof -
  obtain f q where "k_msgq_get Q K_FOREVER (ingest_msgq b) = (Inr f, q)"
    using assms dispatcher_iteration_None [of Q b]
    by (cases "k_msgq_get Q K_FOREVER (ingest_msgq b)"; cases "fst (k_msgq_get Q K_FOREVER (ingest_msgq b))") auto
  from dispatcher_iteration_Some [OF this] assms show ?thesis
    by (auto simp: dispatch_stats_def lines_counted_def)
qed

lemma session_step_bridge_stats:
  "bridge_stats (env_bridge (snd (session_step c Q now as s env))) = bridge_stats (env_bridge env)"
  by (auto simp: session_step_bridge nmea_bridge_sink_open_def nmea_bridge_sink_take_def
      nmea_bridge_sink_close_def Let_def split: session_pc.split option.split sum.split prod.split)

lemma net_step_counted:
  assumes "counts_agree c n"
  shows "counts_agree c (net_step c Q ev n)"
proof (cases ev)
  case (Uart_byte e)
  let ?w = "\<lparr>uart_rx = net_rx n, uart_nmea_of = net_uart n,
      uart_bridge = env_bridge (net_env n), uart_led = env_led (net_env n)\<rparr>"
  have "uart_thread_ok c (uart_rx ?w)"
    and "lines_counted (bridge_stats (uart_bridge ?w)) (uart_stats (uart_nmea_of ?w))"
    using assms by (simp_all add: counts_agree_def)
  from byte_counted [OF this, of Q e] byte_ok [OF this(1), of Q e] Uart_byte show ?thesis
    by (simp add: counts_agree_def net_uart_byte_def Let_def)
next
  case Dispatch_frame
  then show ?thesis using assms
    by (auto simp: counts_agree_def dispatch_counted split: option.split)
next
  case (Session_step i now as)
  then show ?thesis using assms
    by (auto simp: counts_agree_def net_session_step_def split_beta Let_def session_step_bridge_stats
        split: option.split)
qed (use assms in \<open>auto simp: counts_agree_def split: option.split\<close>)

interpretation counting_machine: invariant_machine "net_step c Q" "counts_agree c" for c Q
  by unfold_locales (rule net_step_counted)

lemma run_counts_agree:
  assumes "length g = nmea_frame_max_len c"
  shows "counts_agree c (prog_net (program_run c Q q0 g w es))"
proof -
  have "counts_agree c (net_start c Q q0 g (session_threads c))"
    using holding_start [OF assms]
    by (auto simp: counts_agree_def net_start_def uart_thread_ok_def lines_counted_def
        nmea_bridge_init_def bridge_storage_def zero_bridge_stats_def uart_storage_def)
  then show ?thesis
    unfolding program_net_run net_run_def by (rule counting_machine.run_inv)
qed

section \<open>The snapshot of a run\<close>

text \<open>
  A snapshot taken between two steps: \<open>locals\<close> and \<open>old\<close> are the uninitialised structures that
  receive the answers, \<open>ready\<close> the answer of the Wi-Fi manager, \<open>tele\<close> the static state of the
  telemetry.
\<close>

definition program_snapshot ::
    "stats_locals \<Rightarrow> bool \<Rightarrow> int \<Rightarrow> bridge_telemetry_snapshot \<Rightarrow> bridge_telemetry_state \<Rightarrow> 'q program
       \<Rightarrow> bridge_telemetry_snapshot" where
  "program_snapshot locals ready now old tele p =
     the (fst (bridge_telemetry_get_snapshot locals (net_uart (prog_net p)) (env_bridge (net_env (prog_net p)))
       (prog_server p) (active_sessions (net_env (prog_net p))) ready now (Some old) tele))"

lemma program_snapshot_fields:
  assumes "x = program_snapshot locals ready now old tele p" and "n = prog_net p"
  shows "connection_state x = (if active_sessions (net_env n) = 0 then BRIDGE_TELEMETRY_NMEA_DISCONNECTED
      else BRIDGE_TELEMETRY_NMEA_CONNECTED)"
    and "c_tcp_nmea_active_sessions (counters x) = active_sessions (net_env n)"
    and "data_quality (warnings x) \<longleftrightarrow> overlong_lines (uart_stats (net_uart n)) \<noteq> 0 \<or>
      publish_invalid (bridge_stats (env_bridge (net_env n))) \<noteq> 0 \<or>
      publish_oversize (bridge_stats (env_bridge (net_env n))) \<noteq> 0"
    and "c_bridge_frames_in (counters x) = frames_in (bridge_stats (env_bridge (net_env n)))"
    and "c_uart_lines_rx (counters x) = lines_rx (uart_stats (net_uart n))"
    and "c_tcp_server_active_clients (counters x) =
      word_of_nat (length (filter client_active (clients (prog_server p))))"
    and "c_tcp_server_max_clients (counters x) = word_of_nat (length (clients (prog_server p)))"
  by (auto simp: assms program_snapshot_def bridge_telemetry_get_snapshot_def
      bridge_telemetry_build_snapshot_def collect_inputs_def snapshot_of_def copy_counters_def Let_def
      split_beta uart_nmea_get_stats_def nmea_bridge_get_stats_def tcp_nmea_server_get_stats_def
      tcp_nmea_session_get_stats_def count_active_eq word_gt_0)

text \<open>
  C7: The status page tells the truth. A snapshot taken between any two steps of any run reports
  "connected" exactly when some session is between its increment and its decrement of the session
  counter, reports as many active sessions as there are such sessions, as many server clients as
  there are occupied slots, out of the configured number; it counts each published line once, and
  its data-quality warning is raised exactly when overlong lines were counted, since the bridge
  never refuses a line.
\<close>

theorem status_page_truthful:
  assumes "kmsgq Q items depth" and "config_ok c" and "length g = nmea_frame_max_len c"
    and "p = program_run c Q q0 g w es"
    and "x = program_snapshot locals ready now old tele p"
  shows "(connection_state x = BRIDGE_TELEMETRY_NMEA_CONNECTED \<longleftrightarrow>
           session_count pc_counted (net_sessions (prog_net p)) \<noteq> 0) \<and>
         unat (c_tcp_nmea_active_sessions (counters x)) =
           session_count pc_counted (net_sessions (prog_net p)) \<and>
         unat (c_tcp_server_active_clients (counters x)) =
           length (filter client_active (clients (prog_server p))) \<and>
         unat (c_tcp_server_max_clients (counters x)) = tcp_nmea_server_max_clients c \<and>
         c_bridge_frames_in (counters x) = c_uart_lines_rx (counters x) \<and>
         (data_quality (warnings x) \<longleftrightarrow> overlong_lines (uart_stats (net_uart (prog_net p))) \<noteq> 0)"
proof -
  note f = program_snapshot_fields [OF assms(5) refl]
  have active: "unat (active_sessions (net_env (prog_net p))) =
      session_count pc_counted (net_sessions (prog_net p))"
    using net_session_counts [OF assms(1-3) session_threads_bound(2) [OF assms(2)] program_net_run [of c Q q0 g w es]]
    unfolding assms(4) by blast
  have zero: "active_sessions (net_env (prog_net p)) = 0 \<longleftrightarrow>
      session_count pc_counted (net_sessions (prog_net p)) = 0"
    unfolding active [symmetric] by (simp add: unat_eq_0)
  have len: "length (clients (prog_server p)) = tcp_nmea_server_max_clients c"
    using threads_okD(2) [OF run_threads_ok [of c Q q0 g w es]] assms(4) by (simp add: server_ok_def)
  then have small: "length (clients (prog_server p)) \<le> 8" using config_okD(8) [OF assms(2)] by simp
  have occupied: "length (filter client_active (clients (prog_server p))) \<le> 8"
    using length_filter_le small by (rule le_trans)
  have val: "unat (word_of_nat k :: u32) = k" if "k \<le> 8" for k using that by (simp add: unat_of_nat)
  have "lines_counted (bridge_stats (env_bridge (net_env (prog_net p)))) (uart_stats (net_uart (prog_net p)))"
    using run_counts_agree [OF assms(3), of Q q0 w es] assms(4) by (simp add: counts_agree_def)
  then show ?thesis
    using f active zero len val [OF small] val [OF occupied] by (simp add: lines_counted_def)
qed

definition demo_locals :: stats_locals where
  "demo_locals =
     \<lparr>uart_local = \<lparr>bytes_rx = 9, lines_rx = 9, overlong_lines = 9\<rparr>, bridge_local = zero_bridge_stats,
      server_local = \<lparr>active_clients = 9, max_clients = 9\<rparr>, session_local = \<lparr>stat_active_sessions = 9\<rparr>\<rparr>"

theorem status_page_truthful_witness:
  "connection_state (program_snapshot demo_locals True 7000 demo_snapshot telemetry_storage demo_program) =
     BRIDGE_TELEMETRY_NMEA_CONNECTED"
  using status_page_truthful [OF ref.kmsgq_axioms uart_config_ok demo_length demo_run refl]
  by (simp add: demo_sessions session_count_def demo_serving_def)

end
