(* ===== verification/Wifi_Flags.thy ===== *)
theory Wifi_Flags
  imports Wifi_Facts "HOL-Library.Sublist"
begin

text \<open>
  What holds of the station's flags when threads interleave at every access to them: the invariant
  that the handlers and the threads that ask keep as long as no handler clears the flags while
  another thread is about to set them, and what happens when one does.
\<close>

section \<open>Where the threads stand\<close>

definition handler_marks :: "handler_pc \<Rightarrow> mark_pc set" where
  "handler_marks pc = (case pc of Handler_marking m \<Rightarrow> {m} | _ \<Rightarrow> {})"

definition ready_marks :: "ready_pc \<Rightarrow> mark_pc set" where
  "ready_marks pc = (case pc of Ready_marking m \<Rightarrow> {m} | _ \<Rightarrow> {})"

definition gateway_marks :: "gateway_pc \<Rightarrow> mark_pc set" where
  "gateway_marks pc = (case pc of Gateway_ready q \<Rightarrow> ready_marks q | _ \<Rightarrow> {})"

text \<open>A thread in \<open>mark_sta_ipv4_ready\<close> that has found an address and not yet set all flags.\<close>

definition setting :: "mark_pc \<Rightarrow> bool" where
  "setting m \<longleftrightarrow> m \<in> {Mark_connected, Mark_has_addr, Mark_read_logged, Mark_logged}"

text \<open>A handler that still has to clear a flag.\<close>

definition clearing :: "handler_pc \<Rightarrow> bool" where
  "clearing pc \<longleftrightarrow>
     (case pc of
        Handler_writing ws mark \<Rightarrow>
          Write_connected False \<in> set ws \<or> Write_has_addr False \<in> set ws \<or> Write_logged False \<in> set ws
      | _ \<Rightarrow> False)"

text \<open>Both at once; \<open>S\<close> are the control points of the threads that ask.\<close>

definition clash :: "handler_pc \<Rightarrow> mark_pc set \<Rightarrow> bool" where
  "clash pc S \<longleftrightarrow> clearing pc \<and> (\<exists>m \<in> S. setting m)"

section \<open>The invariant\<close>

definition coherent :: "wifi_manager \<Rightarrow> bool" where
  "coherent w \<longleftrightarrow> (sta_has_addr w \<longrightarrow> sta_connected w) \<and> (sta_ipv4_logged w \<longleftrightarrow> sta_has_addr w)"

text \<open>Coherent but for what the threads at the control points \<open>M\<close> are about to do.\<close>

definition coherent_upto :: "wifi_manager \<Rightarrow> mark_pc set \<Rightarrow> bool" where
  "coherent_upto w M \<longleftrightarrow>
     (sta_has_addr w \<longrightarrow> sta_connected w) \<and> (sta_ipv4_logged w \<longrightarrow> sta_has_addr w) \<and>
     (sta_has_addr w \<and> \<not> sta_ipv4_logged w \<longrightarrow> Mark_read_logged \<in> M \<or> Mark_logged \<in> M) \<and>
     (Mark_has_addr \<in> M \<longrightarrow> sta_connected w) \<and>
     (Mark_read_logged \<in> M \<or> Mark_logged \<in> M \<longrightarrow> sta_has_addr w)"

definition pending :: "handler_pc \<Rightarrow> flag_write list" where
  "pending pc = (case pc of Handler_writing ws mark \<Rightarrow> ws | _ \<Rightarrow> [])"

definition handler_wf :: "handler_pc \<Rightarrow> bool" where
  "handler_wf pc \<longleftrightarrow>
     suffix (pending pc) [Write_connected False, Write_has_addr False, Write_logged False,
       Write_requested False] \<or>
     suffix (pending pc) [Write_has_addr False, Write_logged False] \<or>
     suffix (pending pc) [Write_connected True, Write_requested False, Write_backoff 5]"

definition flags_ok :: "wifi_manager \<Rightarrow> handler_pc \<Rightarrow> mark_pc set \<Rightarrow> bool" where
  "flags_ok w pc S \<longleftrightarrow> handler_wf pc \<and>
     (if clearing pc then coherent (fold apply_write (pending pc) w)
      else coherent_upto w (handler_marks pc \<union> S))"

text \<open>Nobody in the middle of anything: the flags agree.\<close>

lemma flags_ok_coherent:
  assumes "flags_ok w pc S" and "\<not> clearing pc" and "\<forall>m \<in> handler_marks pc \<union> S. \<not> setting m"
  shows "coherent w"
  using assms by (auto simp: flags_ok_def coherent_upto_def coherent_def setting_def)

section \<open>The invariant is kept\<close>

lemma mark_keeps:
  assumes "coherent_upto w M" and "m \<in> M" and "mark_step ifs m w = (m', w')"
    and "M - {m} \<subseteq> M'" and "M' \<subseteq> insert m' M" and "m' \<in> M' \<or> (\<exists>r. m' = Mark_returned r)"
  shows "coherent_upto w' M'"
proof -
  have keep: "x \<in> M'" if "x \<in> M" "x \<noteq> m" for x using assms(4) that by blast
  have from_old: "x \<in> M" if "x \<in> M'" "x \<noteq> m'" for x using assms(5) that by blast
  show ?thesis
  proof (cases m)
    case Mark_addr
    then have "w' = w" "m' = Mark_connected \<or> m' = Mark_returned False"
      using assms(3) by (auto simp: mark_step_def split: if_splits)
    then show ?thesis using assms(1) keep [of Mark_read_logged] keep [of Mark_logged] from_old Mark_addr
      unfolding coherent_upto_def by (metis mark_pc.distinct)
  next
    case Mark_connected
    then have "w' = w\<lparr>sta_connected := True\<rparr>" "m' = Mark_has_addr"
      using assms(3) by (auto simp: mark_step_def)
    then show ?thesis using assms(1) keep [of Mark_read_logged] keep [of Mark_logged]
        from_old [of Mark_read_logged] from_old [of Mark_logged] Mark_connected
      unfolding coherent_upto_def by auto
  next
    case Mark_has_addr
    then have "w' = w\<lparr>sta_has_addr := True\<rparr>" "m' = Mark_read_logged"
      using assms(3) by (auto simp: mark_step_def)
    then show ?thesis using assms(1,2,6) Mark_has_addr unfolding coherent_upto_def by auto
  next
    case Mark_read_logged
    then have w': "w' = w" "m' = (if sta_ipv4_logged w then Mark_returned True else Mark_logged)"
      using assms(3) by (auto simp: mark_step_def)
    then show ?thesis using assms(1,2,6) keep [of Mark_logged] from_old [of Mark_has_addr] Mark_read_logged
      unfolding coherent_upto_def by (auto split: if_splits)
  next
    case Mark_logged
    then have "w' = w\<lparr>sta_ipv4_logged := True\<rparr>" "m' = Mark_returned True"
      using assms(3) by (auto simp: mark_step_def)
    then show ?thesis using assms(1,2) from_old [of Mark_has_addr] Mark_logged
      unfolding coherent_upto_def by auto
  next
    case (Mark_returned r)
    then have "w' = w" "m' = m" using assms(3) by (auto simp: mark_step_def)
    then show ?thesis using assms(1) keep from_old Mark_returned
      unfolding coherent_upto_def by (metis mark_pc.distinct)
  qed
qed

text \<open>Only the three flags and the control points that set them matter.\<close>

definition same_flags :: "wifi_manager \<Rightarrow> wifi_manager \<Rightarrow> bool" where
  "same_flags w w' \<longleftrightarrow> sta_connected w' = sta_connected w \<and> sta_has_addr w' = sta_has_addr w \<and>
     sta_ipv4_logged w' = sta_ipv4_logged w"

lemma apply_same_flags: "same_flags w w' \<Longrightarrow> same_flags (apply_write x w) (apply_write x w')"
  by (cases x) (simp_all add: same_flags_def)

lemma fold_same_flags: "same_flags w w' \<Longrightarrow> same_flags (fold apply_write ws w) (fold apply_write ws w')"
  by (induction ws arbitrary: w w') (simp_all add: apply_same_flags)

lemma flags_ok_same:
  assumes "flags_ok w pc S" and "same_flags w w'" and "\<And>m. setting m \<Longrightarrow> m \<in> S' \<longleftrightarrow> m \<in> S"
  shows "flags_ok w' pc S'"
proof -
  have "coherent (fold apply_write (pending pc) w') = coherent (fold apply_write (pending pc) w)"
    using fold_same_flags [OF assms(2), of "pending pc"] by (simp add: coherent_def same_flags_def)
  moreover have "coherent_upto w' (handler_marks pc \<union> S') = coherent_upto w (handler_marks pc \<union> S)"
    using assms(2) assms(3) [of Mark_has_addr] assms(3) [of Mark_read_logged] assms(3) [of Mark_logged]
    by (simp add: coherent_upto_def same_flags_def setting_def)
  ultimately show ?thesis using assms(1) by (simp add: flags_ok_def)
qed

lemma quiet_upto:
  assumes "coherent w" and "\<forall>m \<in> M. \<not> setting m"
  shows "coherent_upto w M"
  using assms by (auto simp: coherent_upto_def coherent_def setting_def)

text \<open>What a handler is about to do once it knows the event.\<close>

lemma event_case_cases:
  "event_case ev i w \<in>
     {Handler_idle, Handler_marking Mark_addr,
      Handler_writing [Write_connected False, Write_has_addr False, Write_logged False,
        Write_requested False] False,
      Handler_writing [Write_connected True, Write_requested False, Write_backoff 5] True,
      Handler_writing [Write_has_addr False, Write_logged False] False}"
  by (simp add: event_case_def wifi_event_case_def ipv4_event_case_def split: mgmt_event.split)

lemma entered_keeps:
  assumes "coherent_upto w S"
  shows "flags_ok w (event_case ev i w) S"
  using event_case_cases [of ev i w] assms
  by (elim insertE emptyE) (simp_all add: flags_ok_def handler_wf_def pending_def clearing_def
      coherent_def handler_marks_def coherent_upto_def)

lemma suffix_cases:
  "suffix (x # xs) [a, b, c, d] \<longleftrightarrow>
     (x, xs) \<in> {(a, [b, c, d]), (b, [c, d]), (c, [d]), (d, [])}"
  "suffix (x # xs) [a, b, c] \<longleftrightarrow> (x, xs) \<in> {(a, [b, c]), (b, [c]), (c, [])}"
  "suffix (x # xs) [a, b] \<longleftrightarrow> (x, xs) \<in> {(a, [b]), (b, [])}"
  by (auto simp: suffix_Cons)

lemma handler_write_keeps:
  assumes "flags_ok w (Handler_writing (x # xs) mark) S"
    and "\<not> clash (Handler_writing (x # xs) mark) S"
  shows "flags_ok (apply_write x w) (handler_goes_on xs mark) S"
proof -
  let ?pc = "Handler_writing (x # xs) mark" and ?pc' = "handler_goes_on xs mark"
  have pend: "pending ?pc' = xs" by (cases xs) (simp_all add: pending_def)
  have marks: "\<forall>m \<in> handler_marks ?pc'. \<not> setting m"
    by (cases xs) (simp_all add: handler_marks_def setting_def)
  have clr: "clearing ?pc' \<longleftrightarrow> Write_connected False \<in> set xs \<or> Write_has_addr False \<in> set xs \<or>
      Write_logged False \<in> set xs"
    by (cases xs) (simp_all add: clearing_def)
  have wf': "handler_wf ?pc'"
    using assms(1) unfolding flags_ok_def handler_wf_def pend
    by (auto simp: pending_def suffix_cases suffix_Cons)
  show ?thesis
  proof (cases "clearing ?pc")
    case True
    then have coh: "coherent (fold apply_write xs (apply_write x w))"
      using assms(1) by (simp add: flags_ok_def pending_def)
    have quiet: "\<forall>m \<in> S. \<not> setting m" using assms(2) True by (simp add: clash_def)
    show ?thesis
    proof (cases "clearing ?pc'")
      case True
      then show ?thesis using coh wf' by (simp add: flags_ok_def pend)
    next
      case False
      then have "coherent (apply_write x w)"
        using assms(1) coh unfolding clr flags_ok_def handler_wf_def
        by (auto simp: pending_def suffix_cases coherent_def)
      then show ?thesis using quiet_upto [of "apply_write x w" "handler_marks ?pc' \<union> S"] False wf' quiet marks
        by (auto simp: flags_ok_def)
    qed
  next
    case False
    then have upto: "coherent_upto w S"
      using assms(1) by (simp add: flags_ok_def handler_marks_def)
    have "x \<in> {Write_connected True, Write_requested False, Write_backoff 5}" and "\<not> clearing ?pc'"
      using assms(1) False unfolding clr flags_ok_def handler_wf_def
      by (auto simp: pending_def suffix_cases clearing_def)
    moreover from this have "coherent_upto (apply_write x w) (handler_marks ?pc' \<union> S)"
      using upto by (cases xs) (auto simp: coherent_upto_def handler_marks_def)
    ultimately show ?thesis using wf' by (simp add: flags_ok_def)
  qed
qed

lemma handler_keeps:
  assumes "flags_ok w pc S" and "\<not> clash pc S" and "handler_step ifs pc w = (pc', w')"
    and "\<not> clash pc' S"
  shows "flags_ok w' pc' S"
proof (cases pc)
  case Handler_idle
  then show ?thesis using assms by (simp add: handler_step_def)
next
  case (Handler_entered ev i)
  then have "pc' = event_case ev i w" "w' = w" using assms(3) by (auto simp: handler_step_def)
  moreover have "coherent_upto w S"
    using assms(1) Handler_entered by (simp add: flags_ok_def clearing_def handler_marks_def)
  ultimately show ?thesis by (simp only: entered_keeps)
next
  case (Handler_writing ws mark)
  show ?thesis
  proof (cases ws)
    case Nil
    then have "pc' = handler_goes_on [] mark" "w' = w" "coherent_upto w S"
      using assms(1,3) Handler_writing
      by (auto simp: handler_step_def flags_ok_def clearing_def handler_marks_def)
    then show ?thesis
      by (cases mark) (auto simp: flags_ok_def handler_wf_def pending_def clearing_def
          handler_marks_def coherent_upto_def)
  next
    case (Cons x xs)
    then show ?thesis using assms(1-3) Handler_writing handler_write_keeps [of w x xs mark S]
      by (simp add: handler_step_def)
  qed
next
  case (Handler_marking m)
  obtain m' where m': "mark_step ifs m w = (m', w')"
      "pc' = (case m' of Mark_returned _ \<Rightarrow> Handler_idle | _ \<Rightarrow> Handler_marking m')"
    using assms(3) Handler_marking
    by (auto simp: handler_step_def split: prod.splits mark_pc.splits)
  have wf': "handler_wf pc'" and clr: "\<not> clearing pc'"
    using m'(2) by (auto simp: handler_wf_def pending_def clearing_def split: mark_pc.splits)
  have upto: "coherent_upto w (insert m S)"
    using assms(1) Handler_marking by (simp add: flags_ok_def clearing_def handler_marks_def)
  have "coherent_upto w' (handler_marks pc' \<union> S)"
    by (rule mark_keeps [OF upto _ m'(1)]) (auto simp: m'(2) handler_marks_def split: mark_pc.splits)
  then show ?thesis using wf' clr by (simp add: flags_ok_def)
qed

text \<open>The threads that ask: \<open>S\<close> are the others.\<close>

lemma mark_setting: "mark_step ifs m w = (m', w') \<Longrightarrow> w' \<noteq> w \<Longrightarrow> setting m"
  by (cases m) (auto simp: mark_step_def setting_def)

lemma asking_mark_keeps:
  assumes "flags_ok w pc (insert m S)" and "\<not> clash pc (insert m S)" and "mark_step ifs m w = (m', w')"
    and "M' = (case m' of Mark_returned _ \<Rightarrow> {} | _ \<Rightarrow> {m'})"
  shows "flags_ok w' pc (M' \<union> S)"
proof (cases "clearing pc")
  case True
  then have "w' = w" using assms(2) mark_setting [OF assms(3)] by (auto simp: clash_def)
  then show ?thesis using assms(1) True by (simp add: flags_ok_def)
next
  case False
  then have upto: "coherent_upto w (insert m (handler_marks pc \<union> S))" using assms(1) by (simp add: flags_ok_def)
  have "coherent_upto w' (handler_marks pc \<union> (M' \<union> S))"
    by (rule mark_keeps [OF upto _ assms(3)]) (auto simp: assms(4) split: mark_pc.splits)
  then show ?thesis using assms(1) False by (simp add: flags_ok_def)
qed

lemma ready_keeps:
  assumes "flags_ok w pc (ready_marks q \<union> S)" and "\<not> clash pc (ready_marks q \<union> S)"
    and "ready_step ifs q w = (q', w')"
  shows "flags_ok w' pc (ready_marks q' \<union> S)"
proof (cases q)
  case (Ready_marking m)
  obtain m' where m': "mark_step ifs m w = (m', w')"
      "q' = (case m' of Mark_returned _ \<Rightarrow> Ready_connected_again | _ \<Rightarrow> Ready_marking m')"
    using assms(3) Ready_marking by (auto simp: ready_step_def split: prod.splits mark_pc.splits)
  have "ready_marks q' = (case m' of Mark_returned _ \<Rightarrow> {} | _ \<Rightarrow> {m'})"
    by (simp add: m'(2) ready_marks_def split: mark_pc.split)
  from asking_mark_keeps [OF _ _ m'(1) this] show ?thesis
    using assms(1,2) Ready_marking by (simp add: ready_marks_def)
qed (use assms in \<open>auto simp: ready_step_def ready_marks_def setting_def same_flags_def
    intro: flags_ok_same [where w = w and S = S] split: if_splits\<close>)

lemma gateway_keeps:
  assumes "flags_ok w pc (gateway_marks g \<union> S)" and "\<not> clash pc (gateway_marks g \<union> S)"
    and "gateway_step ifs g w = (g', w')"
  shows "flags_ok w' pc (gateway_marks g' \<union> S)"
proof (cases g)
  case (Gateway_ready q)
  obtain q' where q': "ready_step ifs q w = (q', w')" "ready_marks q' = gateway_marks g'"
    using assms(3) Gateway_ready
    by (auto simp: gateway_step_def gateway_marks_def ready_marks_def Let_def
        split: prod.splits ready_pc.splits if_splits)
  show ?thesis using ready_keeps [OF _ _ q'(1)] assms(1,2) Gateway_ready q'(2)
    by (simp add: gateway_marks_def)
qed (use assms in \<open>auto simp: gateway_step_def gateway_marks_def Let_def\<close>)

end
