(* ===== verification/Program_Wifi.thy ===== *)
theory Program_Wifi
  imports Program_Threads Wifi_Flags
begin

text \<open>
  The station's flags in runs of the program, where the thread of the network events, the web
  server's thread, the outbound client, the retry thread and \<open>main\<close> interleave at every access.
\<close>

section \<open>The threads that ask\<close>

definition host_marks :: "host_pc \<Rightarrow> mark_pc set" where
  "host_marks h =
     (case h of
        Host_ready q \<Rightarrow> ready_marks q
      | Host_gateway g \<Rightarrow> gateway_marks g
      | Host_returned _ _ \<Rightarrow> {})"

definition outbound_marks :: "outbound_pc \<Rightarrow> mark_pc set" where
  "outbound_marks pc = (case pc of Outbound_asking h \<Rightarrow> host_marks h | _ \<Rightarrow> {})"

text \<open>Where the web server's thread and the client stand in \<open>mark_sta_ipv4_ready\<close>, if they do.\<close>

definition asking_marks :: "'q program \<Rightarrow> mark_pc set" where
  "asking_marks p = ready_marks (asking_thread (prog_threads p)) \<union> outbound_marks (outbound_thread (prog_client p))"

definition program_clash :: "'q program \<Rightarrow> bool" where
  "program_clash p \<longleftrightarrow> clash (handler_thread (prog_threads p)) (asking_marks p)"

definition program_flags_ok :: "'q program \<Rightarrow> bool" where
  "program_flags_ok p \<longleftrightarrow> flags_ok (prog_wifi p) (handler_thread (prog_threads p)) (asking_marks p)"

lemma host_keeps:
  assumes "flags_ok w pc (host_marks h \<union> S)" and "\<not> clash pc (host_marks h \<union> S)"
    and "host_step c pton ifs h w = (h', w')"
  shows "flags_ok w' pc (host_marks h' \<union> S)"
proof (cases h)
  case (Host_ready q)
  obtain q' where q': "ready_step ifs q w = (q', w')" "ready_marks q' = host_marks h'"
    using assms(3) Host_ready
    by (auto simp: host_step_def host_marks_def ready_marks_def
        split: prod.splits ready_pc.splits if_splits option.splits)
  show ?thesis using ready_keeps [OF _ _ q'(1)] assms(1,2) Host_ready q'(2) by (simp add: host_marks_def)
next
  case (Host_gateway g)
  obtain g' where g': "gateway_step ifs g w = (g', w')" "gateway_marks g' = host_marks h'"
    using assms(3) Host_gateway
    by (auto simp: host_step_def host_marks_def gateway_marks_def
        split: prod.splits gateway_pc.splits if_splits)
  show ?thesis using gateway_keeps [OF _ _ g'(1)] assms(1,2) Host_gateway g'(2) by (simp add: host_marks_def)
next
  case (Host_returned host slept)
  then show ?thesis using assms by (simp add: host_step_def)
qed

lemma host_call_marks: "host_marks (host_call c) = {}"
  by (simp add: host_call_def host_marks_def gateway_call_def gateway_marks_def ready_marks_def)

lemma outbound_keeps:
  assumes "flags_ok w pc (outbound_marks (outbound_thread cl) \<union> S)"
    and "\<not> clash pc (outbound_marks (outbound_thread cl) \<union> S)"
    and "client_step c inp (cl, w) = ((cl', w'), eff, secs)"
  shows "flags_ok w' pc (outbound_marks (outbound_thread cl') \<union> S)"
proof (cases "\<exists>h. outbound_thread cl = Outbound_asking h")
  case True
  then obtain h where h: "outbound_thread cl = Outbound_asking h" by blast
  obtain h' w1 where st: "host_step c (in_pton inp) (in_ifs inp) h w = (h', w1)" by fastforce
  have "outbound_marks (outbound_thread cl') = host_marks h'" "w' = w1"
    using assms(3) h st by (auto simp: client_step_def outbound_marks_def host_marks_def
        split: host_pc.splits option.splits)
  then show ?thesis using host_keeps [OF _ _ st] assms(1,2) h by (simp add: outbound_marks_def)
next
  case False
  then have "outbound_marks (outbound_thread cl) = {}"
    by (simp add: outbound_marks_def split: outbound_pc.split)
  moreover have "w' = w \<and> outbound_marks (outbound_thread cl') = {}"
    using assms(3) False by (cases "outbound_thread cl")
      (auto simp: client_step_def outbound_marks_def host_call_marks split: prod.splits sum.splits)
  ultimately show ?thesis using assms(1) by simp
qed

section \<open>The invariant along runs without a clash\<close>

lemma retry_same_flags: "same_flags w (fst (snd (retry_step c net pc w)))"
  by (auto simp: retry_step_def same_flags_def connect_sta_finish_def Let_def split_beta
      split: retry_pc.split connect_request.split sum.split)

lemma start_same_flags: "same_flags w (fst (snd (wifi_start_step c a pc w)))"
  by (auto simp: wifi_start_step_def same_flags_def connect_sta_finish_def Let_def split_beta
      split: wifi_start_pc.split connect_request.split sum.split)

lemma wifi_event_keeps:
  assumes "program_flags_ok p" and "\<not> program_clash p"
    and "q = program_step c Q (Ev_wifi e) p" and "\<not> program_clash q"
  shows "program_flags_ok q"
proof -
  let ?ts = "prog_threads p" and ?w = "prog_wifi p" and ?S = "outbound_marks (outbound_thread (prog_client p))"
  obtain w ts calls where st: "wifi_run_step c e (?w, ?ts) = ((w, ts), calls)" by (metis prod.exhaust)
  have q: "prog_wifi q = w" "prog_threads q = ts" "prog_client q = prog_client p"
    using st by (simp_all add: assms(3) program_step_def)
  note ok = assms(1)[unfolded program_flags_ok_def asking_marks_def]
    and free = assms(2)[unfolded program_clash_def asking_marks_def]
    and free' = assms(4)[unfolded program_clash_def asking_marks_def q]
  have "flags_ok w (handler_thread ts) (ready_marks (asking_thread ts) \<union> ?S)"
  proof (cases e)
    case (Mgmt_event ev i)
    have entered: "flags_ok ?w (Handler_entered ev i) (ready_marks (asking_thread ?ts) \<union> ?S)"
      if "handler_thread ?ts = Handler_idle"
      using ok that by (simp add: flags_ok_def handler_wf_def pending_def clearing_def handler_marks_def)
    show ?thesis using st Mgmt_event ok entered by (auto split: if_splits)
  next
    case (Mgmt_turn ifs)
    obtain pc w1 where h: "handler_step ifs (handler_thread ?ts) ?w = (pc, w1)" by fastforce
    then have "w = w1" "ts = ?ts\<lparr>handler_thread := pc\<rparr>" using st Mgmt_turn by auto
    then show ?thesis using handler_keeps [OF ok free h] free' by simp
  next
    case Ask
    have "flags_ok ?w (handler_thread ?ts) ?S" if "asking_thread ?ts = Ready_returned r" for r
      using ok that by (simp add: ready_marks_def)
    then show ?thesis using st Ask ok
      by (auto simp: ready_marks_def split: ready_pc.splits)
  next
    case (Ask_turn ifs)
    obtain pc w1 where h: "ready_step ifs (asking_thread ?ts) ?w = (pc, w1)" by fastforce
    then have "w = w1" "ts = ?ts\<lparr>asking_thread := pc\<rparr>" using st Ask_turn by auto
    then show ?thesis using ready_keeps [OF ok free h] by simp
  next
    case (Retry_turn net)
    then have "same_flags ?w w" "handler_thread ts = handler_thread ?ts" "asking_thread ts = asking_thread ?ts"
      using st retry_same_flags [of ?w c net "retry_thread ?ts"] by (auto simp: split_beta)
    then show ?thesis using flags_ok_same [OF ok] by simp
  next
    case (Start_turn a)
    then have "same_flags ?w w" "handler_thread ts = handler_thread ?ts" "asking_thread ts = asking_thread ?ts"
      using st start_same_flags [of ?w c a "start_thread ?ts"] by (auto simp: split_beta)
    then show ?thesis using flags_ok_same [OF ok] by simp
  qed
  then show ?thesis by (simp add: program_flags_ok_def asking_marks_def q)
qed

lemma program_step_keeps:
  assumes "threads_ok c p" and "program_flags_ok p" and "\<not> program_clash p"
    and "q = program_step c Q ev p" and "\<not> program_clash q"
  shows "program_flags_ok q"
proof -
  have same: "program_flags_ok q"
    if "prog_wifi q = prog_wifi p" "prog_threads q = prog_threads p"
      "outbound_marks (outbound_thread (prog_client q)) = outbound_marks (outbound_thread (prog_client p))"
    using assms(2) that by (simp add: program_flags_ok_def asking_marks_def)
  show ?thesis
  proof (cases ev)
    case (Ev_wifi e)
    then show ?thesis using wifi_event_keeps [OF assms(2,3)] assms(4,5) by simp
  next
    case Ev_client_start
    have "outbound_thread (prog_client p) = Outbound_none" if "\<not> client_started (prog_client p)"
      using threads_okD(4) [OF assms(1)] that by (simp add: outbound_match_def)
    then show ?thesis using Ev_client_start assms(4)
      by (intro same) (auto simp: program_step_def tcp_nmea_client_start_def outbound_marks_def)
  next
    case (Ev_client inp g now as)
    show ?thesis
    proof (cases "outbound_thread (prog_client p) = Outbound_in_session")
      case True
      then show ?thesis using Ev_client assms(4)
        by (intro same) (auto simp: program_step_def split_beta client_session_returned_def outbound_marks_def)
    next
      case False
      obtain cl w eff secs where st: "client_step c inp (prog_client p, prog_wifi p) = ((cl, w), eff, secs)"
        by (metis prod.exhaust)
      have q: "prog_wifi q = w" "prog_threads q = prog_threads p" "prog_client q = cl"
        using False st Ev_client assms(4) by (simp_all add: program_step_def)
      show ?thesis
        using outbound_keeps [where S = "ready_marks (asking_thread (prog_threads p))", OF _ _ st] assms(2,3)
        by (simp add: program_flags_ok_def program_clash_def asking_marks_def q Un_commute)
    qed
  qed (intro same; simp add: assms(4) program_step_def split_beta Let_def)+
qed

text \<open>No state of the run has a handler clear flags that another thread is about to set.\<close>

fun clash_free :: "app_config \<Rightarrow> 'q msgq_ops \<Rightarrow> program_event list \<Rightarrow> 'q program \<Rightarrow> bool" where
  "clash_free c Q [] p = (\<not> program_clash p)"
| "clash_free c Q (ev # es) p = (\<not> program_clash p \<and> clash_free c Q es (program_step c Q ev p))"

lemma clash_free_flags:
  "threads_ok c p \<Longrightarrow> program_flags_ok p \<Longrightarrow> clash_free c Q es p \<Longrightarrow>
     program_flags_ok (fold (program_step c Q) es p)"
proof (induction es arbitrary: p)
  case Nil
  then show ?case by simp
next
  case (Cons ev es)
  let ?q = "program_step c Q ev p"
  have "\<not> program_clash ?q" using Cons.prems(3) by (cases es) simp_all
  then have "program_flags_ok ?q"
    using program_step_keeps [OF Cons.prems(1,2) _ refl] Cons.prems(3) by simp
  then show ?case using Cons.IH [OF threads_step [OF Cons.prems(1)]] Cons.prems(3) by simp
qed

lemma start_flags_ok: "program_flags_ok (program_start c Q q0 g wifi_storage)"
  by (simp add: program_flags_ok_def asking_marks_def program_start_def wifi_threads_start_def
      wifi_storage_def client_storage_def flags_ok_def handler_wf_def pending_def clearing_def
      handler_marks_def ready_marks_def outbound_marks_def coherent_upto_def)

text \<open>
  C13: The station flags agree with each other. In every run of the program from power-on, whatever
  the network reports and however the threads interleave at their accesses to the flags, as long as
  no handler clears flags while another thread stands between finding an address and setting the
  flags: whenever no thread is in the middle of changing them, an address is recorded only while
  the station is connected and the log line is out exactly while an address is recorded; and a
  call of \<open>wifi_manager_sta_ready\<close> that no other thread interrupts then answers true exactly if an
  address is recorded, or the station is connected and DHCP has assigned one.
\<close>

theorem station_flags_agree:
  assumes "clash_free c Q es (program_start c Q q0 g wifi_storage)"
    and "p = program_run c Q q0 g wifi_storage es"
    and "\<not> clearing (handler_thread (prog_threads p))"
    and "\<forall>m \<in> handler_marks (handler_thread (prog_threads p)) \<union> asking_marks p. \<not> setting m"
    and "w = prog_wifi p"
  shows "(sta_has_addr w \<longrightarrow> sta_connected w) \<and> (sta_ipv4_logged w \<longleftrightarrow> sta_has_addr w) \<and>
    fst (((\<lambda>(q, w). ready_step ifs q w) ^^ 9) (Ready_connected, w)) =
      Ready_returned (sta_has_addr w \<or> sta_connected w \<and> sta_dhcp_addr ifs w \<noteq> None)"
proof -
  have "program_flags_ok p"
    using clash_free_flags [OF start_threads_ok start_flags_ok assms(1)] assms(2)
    by (simp add: program_run_def)
  then have "coherent w"
    using flags_ok_coherent assms(3,4) unfolding program_flags_ok_def assms(5) by blast
  then show ?thesis by (auto simp: coherent_def ready_uninterrupted)
qed

text \<open>
  A run with interference that does no harm: the web server's thread asks while the handler of the
  connection result is at work, and both mark the station.
\<close>

definition demo_wifi_answers :: wifi_answers where
  "demo_wifi_answers =
     \<lparr>answer_pton = (\<lambda>_. None), answer_ifs = demo_ifs, answer_net = (\<lambda>_. success),
      answer_random = (1, 2, 3), answer_sap = Some 0, answer_sta = Some 1\<rparr>"

definition marking_events :: "program_event list" where
  "marking_events = map Ev_wifi
     ([Start_turn demo_wifi_answers, Mgmt_event (WIFI_CONNECT_RESULT (Some 0)) 1, Mgmt_turn demo_ifs,
       Mgmt_turn demo_ifs, Ask] @ replicate 4 (Ask_turn demo_ifs) @ replicate 7 (Mgmt_turn demo_ifs) @
      replicate 5 (Ask_turn demo_ifs))"

definition marking_program :: "ref_queue program" where
  "marking_program = program_run uart_config ref_msgq (0, []) (replicate 32 0) wifi_storage marking_events"

lemma marking_free:
  "clash_free uart_config ref_msgq marking_events
     (program_start uart_config ref_msgq (0, []) (replicate 32 0) wifi_storage)"
  by code_simp

lemma marking_threads:
  "prog_threads marking_program =
     \<lparr>handler_thread = Handler_idle, asking_thread = Ready_returned True, retry_thread = Retry_start,
      start_thread = Start_mac\<rparr>"
  by code_simp

lemma marking_client: "outbound_thread (prog_client marking_program) = Outbound_none"
  by code_simp

lemma marking_addr: "sta_has_addr (prog_wifi marking_program)"
  by code_simp

theorem station_flags_agree_witness:
  "sta_connected (prog_wifi marking_program) \<and>
   fst (((\<lambda>(q, w). ready_step demo_ifs q w) ^^ 9) (Ready_connected, prog_wifi marking_program)) =
     Ready_returned True"
proof -
  have c: "\<not> clearing (handler_thread (prog_threads marking_program))"
    by (simp add: marking_threads clearing_def)
  have m: "\<forall>m \<in> handler_marks (handler_thread (prog_threads marking_program)) \<union>
      asking_marks marking_program. \<not> setting m"
    by (simp add: marking_threads marking_client handler_marks_def asking_marks_def ready_marks_def
        outbound_marks_def)
  show ?thesis using station_flags_agree [OF marking_free marking_program_def c m refl, of demo_ifs]
    by (simp only: marking_addr simp_thms)
qed

section \<open>The clash\<close>

text \<open>
  C31: A disconnect can be lost. When the station has just connected and a thread that asks
  whether it is ready has found a DHCP address, but the disconnect is handled before that thread
  sets the flags, these say afterwards that the station is connected and has an address: the thread
  answers true, so does every later call, and the retry thread never asks to connect again, not
  even when the end of DHCP has been handled too, unless another connection result or disconnect
  arrives.
\<close>

theorem disconnect_lost_in_mark:
  assumes "sta_iface w = Some i" and "sta_connected w" and "\<not> sta_has_addr w"
    and "sta_dhcp_addr ifs w \<noteq> None"
    and "((\<lambda>(q, w). ready_step ifs q w) ^^ 3) (Ready_connected, w) = (q1, w1)"
    and "((\<lambda>(q, w). ready_step ifs2 q w) ^^ 6) (q1, wifi_event_handler ifs1 WIFI_DISCONNECT_RESULT i w1) =
           (q3, w3)"
    and "w4 = (if dhcp_stop then ipv4_event_handler ifs4 IPV4_DHCP_STOP i w3 else w3)"
  shows "q3 = Ready_returned True \<and> sta_connected w3 \<and> sta_has_addr w3 \<and>
    fst (((\<lambda>(q, w). ready_step ifs3 q w) ^^ 9) (Ready_connected, w3)) = Ready_returned True \<and>
    (retry_accum c net ^^ n) (Retry_check, w4, 0, []) = (Retry_check, w4, 1000 * n, [])"
proof -
  have one: "q1 = Ready_marking Mark_connected" "w1 = w"
    using assms(2-5) by (auto simp: numeral_eq_Suc ready_step_def mark_step_def)
  have three: "q3 = Ready_returned True" "sta_connected w3" "sta_has_addr w3" "sta_iface w3 = Some i"
    using assms(1,6) unfolding one disconnect_handled [OF assms(1)]
    by (auto simp: numeral_eq_Suc ready_step_def mark_step_def)
  have "sta_connected w4"
    using three by (simp add: assms(7) ipv4_event_handler_def ipv4_event_case_def handler_eight
        handler_step_def)
  then have "(retry_accum c net ^^ n) (Retry_check, w4, 0, []) = (Retry_check, w4, 1000 * n, [])"
    by (induction n) (simp_all add: retry_accum_def retry_step_def)
  then show ?thesis using three by (simp add: ready_uninterrupted)
qed

theorem disconnect_lost_in_mark_witness:
  "let w = demo_wifi\<lparr>sta_connected := True\<rparr>;
       (q1, w1) = ((\<lambda>(q, w). ready_step demo_ifs q w) ^^ 3) (Ready_connected, w);
       (q3, w3) = ((\<lambda>(q, w). ready_step demo_ifs q w) ^^ 6)
         (q1, wifi_event_handler demo_ifs WIFI_DISCONNECT_RESULT 1 w1)
   in sta_connected w3 \<and>
      (retry_accum demo_sta_config (\<lambda>_. success) ^^ 3600) (Retry_check, w3, 0, []) =
        (Retry_check, w3, 3600000, [])"
proof -
  let ?w = "demo_wifi\<lparr>sta_connected := True\<rparr>"
  have w: "sta_iface ?w = Some 1" "sta_connected ?w" "\<not> sta_has_addr ?w" "sta_dhcp_addr demo_ifs ?w \<noteq> None"
    by (simp_all add: demo_wifi_def wifi_storage_def sta_dhcp_addr_def demo_ifs_def addr_unspecified_def)
  obtain q1 w1 where 1: "((\<lambda>(q, w). ready_step demo_ifs q w) ^^ 3) (Ready_connected, ?w) = (q1, w1)"
    by (metis prod.exhaust)
  obtain q3 w3 where 3: "((\<lambda>(q, w). ready_step demo_ifs q w) ^^ 6)
      (q1, wifi_event_handler demo_ifs WIFI_DISCONNECT_RESULT 1 w1) = (q3, w3)"
    by (metis prod.exhaust)
  have n: "(1000 :: nat) * 3600 = 3600000" by simp
  have "w3 = (if False then ipv4_event_handler demo_ifs IPV4_DHCP_STOP 1 w3 else w3)" by simp
  from disconnect_lost_in_mark [OF w 1 3 this, where n = 3600 and c = demo_sta_config
      and net = "\<lambda>_. success"]
  show ?thesis by (simp only: Let_def 1 3 prod.case n)
qed

end
