(* ===== verification/Strings.thy ===== *)
theory Strings
  imports Prelude
begin

text \<open>
  The C strings the web app works on, as lists of characters: \<open>strlen\<close>, \<open>strncmp\<close>, \<open>strchr\<close>
  and the conversions of \<open>snprintk\<close> it uses. The terminator of a string that has none in the
  list stands right behind it.
\<close>

section \<open>The string functions\<close>

abbreviation NUL :: char where
  "NUL \<equiv> CHR 0x00"

definition strlen :: "string \<Rightarrow> nat" where
  "strlen s = length (takeWhile (\<lambda>c. c \<noteq> NUL) s)"

definition char_at :: "string \<Rightarrow> char" where
  "char_at s = (case s of [] \<Rightarrow> NUL | c # _ \<Rightarrow> c)"

text \<open>\<open>strncmp(a, b, n) == 0\<close>.\<close>

fun strncmp_equal :: "string \<Rightarrow> string \<Rightarrow> nat \<Rightarrow> bool" where
  "strncmp_equal a b 0 = True"
| "strncmp_equal a b (Suc n) =
     (char_at a = char_at b \<and> (char_at a = NUL \<or> strncmp_equal (tl a) (tl b) n))"

text \<open>\<open>strchr(s, x) - s\<close>, for \<open>x\<close> not the terminator.\<close>

fun strchr :: "string \<Rightarrow> char \<Rightarrow> nat option" where
  "strchr [] x = None"
| "strchr (c # s) x =
     (if c = x then Some 0 else if c = NUL then None else map_option Suc (strchr s x))"

lemma strlen_literal: "NUL \<notin> set s \<Longrightarrow> strlen s = length s"
  unfolding strlen_def by (subst takeWhile_eq_all_conv [THEN iffD2]) auto

lemma strncmp_literal:
  "NUL \<notin> set lit \<Longrightarrow> strncmp_equal s lit (length lit) \<longleftrightarrow> take (length lit) s = lit"
proof (induction lit arbitrary: s)
  case Nil
  then show ?case by simp
next
  case (Cons c lit)
  then show ?case by (cases s) (auto simp: char_at_def)
qed

lemma strncmp_whole:
  "NUL \<notin> set lit \<Longrightarrow> n = length lit \<Longrightarrow> strncmp_equal s lit n \<longleftrightarrow> take n s = lit"
  by (simp add: strncmp_literal)

lemma strchr_found:
  "x \<noteq> NUL \<Longrightarrow> strchr s x = Some k \<longleftrightarrow>
     k < length s \<and> s ! k = x \<and> x \<notin> set (take k s) \<and> NUL \<notin> set (take k s)"
proof (induction s arbitrary: k)
  case Nil
  then show ?case by simp
next
  case (Cons c s)
  then show ?case by (cases k) (auto split: if_splits)
qed

lemma strchr_none:
  "x \<noteq> NUL \<Longrightarrow> strchr s x = None \<longleftrightarrow> x \<notin> set (takeWhile (\<lambda>c. c \<noteq> NUL) s)"
  by (induction s) auto

lemma strchr_split:
  "x \<noteq> NUL \<Longrightarrow> x \<notin> set p \<Longrightarrow> NUL \<notin> set p \<Longrightarrow> strchr (p @ x # r) x = Some (length p)"
  by (induction p) auto

section \<open>Decimal numbers\<close>

definition is_digit :: "char \<Rightarrow> bool" where
  "is_digit c \<longleftrightarrow> 48 \<le> (of_char c :: nat) \<and> (of_char c :: nat) < 58"

text \<open>\<open>%u\<close> and \<open>%zu\<close>.\<close>

fun decimal :: "nat \<Rightarrow> string" where
  "decimal n =
     (if n div 10 = 0 then [] else decimal (n div 10)) @ [char_of (48 + n mod 10)]"

declare decimal.simps [simp del]

definition read_decimal :: "string \<Rightarrow> nat" where
  "read_decimal s = foldl (\<lambda>a c. 10 * a + (of_char c - 48)) 0 s"

lemma digit_value: "k < 10 \<Longrightarrow> (of_char (char_of (48 + k :: nat)) :: nat) = 48 + k"
  by (simp add: of_char_of)

lemma read_decimal_decimal: "read_decimal (decimal n) = n"
proof (induction n rule: decimal.induct)
  case (1 n)
  show ?case
  proof (cases "n div 10 = 0")
    case True
    then show ?thesis
      by (subst decimal.simps) (simp add: read_decimal_def digit_value div_eq_0_iff)
  next
    case False
    then have "foldl (\<lambda>a c. 10 * a + (of_char c - 48)) 0 (decimal (n div 10)) = n div 10"
      using 1 by (simp add: read_decimal_def)
    then show ?thesis using False
      by (subst decimal.simps) (simp add: read_decimal_def digit_value)
  qed
qed

lemma decimal_digits: "c \<in> set (decimal n) \<Longrightarrow> is_digit c"
proof (induction n rule: decimal.induct)
  case (1 n)
  then show ?case
    by (subst (asm) decimal.simps) (auto simp: is_digit_def digit_value split: if_splits)
qed

lemma decimal_length: "n < 10 ^ Suc k \<Longrightarrow> length (decimal n) \<le> Suc k"
proof (induction k arbitrary: n)
  case 0
  then show ?case by (subst decimal.simps) simp
next
  case (Suc k)
  then have "n div 10 < 10 ^ Suc k" by (simp add: div_less_iff_less_mult mult.commute)
  then show ?case using Suc.IH [of "n div 10"] by (subst decimal.simps) auto
qed

text \<open>A number followed by a character that is no digit can be read off.\<close>

lemma decimal_cut:
  assumes "\<not> is_digit c"
  shows "decimal a @ c # x = decimal b @ c # y \<longleftrightarrow> a = b \<and> x = y"
proof
  assume eq: "decimal a @ c # x = decimal b @ c # y"
  have front: "takeWhile is_digit (decimal n @ c # z) = decimal n" for n z
    using assms by (simp add: takeWhile_append2 decimal_digits)
  have "decimal a = decimal b" using arg_cong [OF eq, of "takeWhile is_digit"] by (simp only: front)
  moreover from this have "a = b" by (metis read_decimal_decimal)
  ultimately show "a = b \<and> x = y" using eq by simp
qed simp

section \<open>Formatting into a buffer\<close>

text \<open>
  \<open>snprintk(buf, room, ..)\<close> of a text: at most \<open>room - 1\<close> characters of it and a terminator are
  stored. The result is what \<open>buf\<close> holds up to the end of the array, and the length of the text.
  \<open>old\<close> is what the array held.
\<close>

definition snprintk :: "string \<Rightarrow> nat \<Rightarrow> string \<Rightarrow> string \<times> nat" where
  "snprintk old room text =
     (if room = 0 then (old, length text)
      else (let stored = take (room - 1) text @ [NUL]
            in (stored @ drop (length stored) old, length text)))"

lemma snprintk_fits:
  "length text < room \<Longrightarrow> snprintk old room text =
     (text @ NUL # drop (Suc (length text)) old, length text)"
  by (simp add: snprintk_def Let_def)

end
