(* ===== verification/Web.thy ===== *)
theory Web
  imports Strings Sockets Telemetry
begin

text \<open>
  \<open>src/web_app.c\<close> and \<open>src/web_app.h\<close>: the web server with the status page and its JSON. It
  serves one connection at a time: reads once, writes a response and closes. What a response
  writes does not depend on how the writing goes, because the results of \<open>send_all\<close> are
  ignored: \<open>handle_client\<close> computes the writes, the thread performs them one by one.
\<close>

section \<open>Assets\<close>

definition WEB_APP_HTTP_PORT :: nat where
  "WEB_APP_HTTP_PORT = 80"

definition WEB_APP_RX_BUF_SIZE :: nat where
  "WEB_APP_RX_BUF_SIZE = 384"

definition WEB_APP_JSON_BUF_SIZE :: nat where
  "WEB_APP_JSON_BUF_SIZE = 1024"

text \<open>The contents of the files that the build links in.\<close>

record web_files =
  index_html :: string
  app_js :: string
  style_css :: string

record web_asset =
  path :: string
  content_type :: string
  content :: string

definition assets :: "web_files \<Rightarrow> web_asset list" where
  "assets files =
     [\<lparr>path = ''/'', content_type = ''text/html; charset=utf-8'', content = index_html files\<rparr>,
      \<lparr>path = ''/index.html'', content_type = ''text/html; charset=utf-8'', content = index_html files\<rparr>,
      \<lparr>path = ''/app.js'', content_type = ''application/javascript'', content = app_js files\<rparr>,
      \<lparr>path = ''/style.css'', content_type = ''text/css; charset=utf-8'', content = style_css files\<rparr>]"

section \<open>Writing\<close>

text \<open>
  The loop of \<open>send_all(fd, data, len)\<close> with the answers of \<open>zsock_send\<close>, entered with \<open>sent_total\<close>
  bytes sent; \<open>wire\<close> collects what the socket accepts. The result is the new \<open>sent_total\<close> if the
  answers run out first, so that the thread is still in a call; else what the function returns and
  the answers it did not use. When a call returns 0 the function returns \<open>-errno\<close> all the same:
  \<open>errno0\<close> is the value of \<open>errno\<close> at that moment, \<open>None\<close> if it is 0.
\<close>

fun web_send_loop ::
    "errno option \<Rightarrow> string \<Rightarrow> nat \<Rightarrow> nat \<Rightarrow> io_answer list \<Rightarrow> string
       \<Rightarrow> (nat + status \<times> io_answer list) \<times> string" where
  "web_send_loop errno0 buf n sent_total [] wire =
     (if sent_total < n then (Inl sent_total, wire) else (Inr (success, []), wire))"
| "web_send_loop errno0 buf n sent_total (a # as) wire =
     (if \<not> sent_total < n then (Inr (success, a # as), wire)
      else case a of
        Inr sent \<Rightarrow>
          if 0 < sent
          then web_send_loop errno0 buf n (sent_total + sent) as
                 (wire @ take sent (take (n - sent_total) (drop sent_total buf)))
          else (Inr (case errno0 of None \<Rightarrow> success | Some e \<Rightarrow> failure e, as), wire)
      | Inl e \<Rightarrow>
          if e = EINTR then web_send_loop errno0 buf n sent_total as wire
          else (Inr (failure e, as), wire))"

text \<open>The loop as a whole: what it returns and has sent, once it has returned.\<close>

definition web_send_all ::
    "errno option \<Rightarrow> string \<Rightarrow> nat \<Rightarrow> nat \<Rightarrow> io_answer list \<Rightarrow> string
       \<Rightarrow> ((status \<times> io_answer list) \<times> string) option" where
  "web_send_all errno0 buf n sent_total as wire =
     (case web_send_loop errno0 buf n sent_total as wire of
        (Inl _, _) \<Rightarrow> None
      | (Inr r, wire') \<Rightarrow> Some (r, wire'))"

text \<open>A write: the array that is sent from its start, up to its end, and the number of bytes.\<close>

type_synonym web_write = "string \<times> nat"

definition crlf :: string where
  "crlf = [CHR 0x0D, CHR 0x0A]"

definition header_text :: "string \<Rightarrow> string \<Rightarrow> nat \<Rightarrow> string" where
  "header_text status ctype content_len =
     ''HTTP/1.1 '' @ status @ crlf @ ''Content-Type: '' @ ctype @ crlf @
     ''Content-Length: '' @ decimal content_len @ crlf @
     ''Connection: close'' @ crlf @ ''Cache-Control: no-store'' @ crlf @ crlf"

text \<open>\<open>header\<close> is the local array, 192 characters that are not initialised.\<close>

definition write_response_header :: "string \<Rightarrow> string \<Rightarrow> string \<Rightarrow> nat \<Rightarrow> web_write list" where
  "write_response_header header status ctype content_len =
     (case snprintk header 192 (header_text status ctype content_len) of
        (stored, header_len) \<Rightarrow> if 0 < header_len then [(stored, header_len)] else [])"

definition write_text_response :: "string \<Rightarrow> string \<Rightarrow> string \<Rightarrow> string \<Rightarrow> web_write list" where
  "write_text_response header status ctype body =
     write_response_header header status ctype (strlen body) @ [(body, strlen body)]"

definition write_asset_response :: "string \<Rightarrow> web_asset \<Rightarrow> web_write list" where
  "write_asset_response header asset =
     (let n = length (content asset)
      in write_response_header header ''200 OK'' (content_type asset) n @ [(content asset, n)])"

section \<open>The status as JSON\<close>

definition quoted :: "string \<Rightarrow> string" where
  "quoted s = CHR 0x22 # s @ [CHR 0x22]"

definition connection_text :: "bridge_telemetry_nmea_connection_state \<Rightarrow> string" where
  "connection_text st =
     (if st = BRIDGE_TELEMETRY_NMEA_CONNECTED then ''connected'' else ''disconnected'')"

definition input_text :: "bridge_telemetry_nmea_input_state \<Rightarrow> string" where
  "input_text st = (if st = BRIDGE_TELEMETRY_NMEA_INPUT_ACTIVE then ''active'' else ''idle'')"

definition bool_text :: "bool \<Rightarrow> string" where
  "bool_text b = (if b then ''true'' else ''false'')"

definition u32_text :: "u32 \<Rightarrow> string" where
  "u32_text w = decimal (unat w)"

definition status_json :: "bridge_telemetry_snapshot \<Rightarrow> string" where
  "status_json s =
     ''{'' @ quoted ''connection_state'' @ '':'' @ quoted (connection_text (connection_state s)) @
     '','' @ quoted ''input_state'' @ '':'' @ quoted (input_text (input_state s)) @
     '','' @ quoted ''warnings'' @ '':{'' @
       quoted ''data_quality'' @ '':'' @ bool_text (data_quality (warnings s)) @
       '','' @ quoted ''frame_loss'' @ '':'' @ bool_text (frame_loss (warnings s)) @ ''},'' @
     quoted ''wifi'' @ '':{'' @
       quoted ''sta_ready'' @ '':'' @ bool_text (snapshot_sta_ready s) @ ''},'' @
     quoted ''uart'' @ '':{'' @
       quoted ''bytes_rx'' @ '':'' @ u32_text (c_uart_bytes_rx (counters s)) @
       '','' @ quoted ''lines_rx'' @ '':'' @ u32_text (c_uart_lines_rx (counters s)) @
       '','' @ quoted ''overlong_lines'' @ '':'' @ u32_text (c_uart_overlong_lines (counters s)) @ ''},'' @
     quoted ''bridge'' @ '':{'' @
       quoted ''frames_in'' @ '':'' @ u32_text (c_bridge_frames_in (counters s)) @
       '','' @ quoted ''ingest_dropped_oldest'' @ '':'' @
         u32_text (c_bridge_ingest_dropped_oldest (counters s)) @
       '','' @ quoted ''sink_dropped_oldest'' @ '':'' @
         u32_text (c_bridge_sink_dropped_oldest (counters s)) @
       '','' @ quoted ''publish_no_sinks'' @ '':'' @ u32_text (c_bridge_publish_no_sinks (counters s)) @
       '','' @ quoted ''publish_invalid'' @ '':'' @ u32_text (c_bridge_publish_invalid (counters s)) @
       '','' @ quoted ''publish_oversize'' @ '':'' @ u32_text (c_bridge_publish_oversize (counters s)) @ ''},'' @
     quoted ''tcp'' @ '':{'' @
       quoted ''active_sessions'' @ '':'' @ u32_text (c_tcp_nmea_active_sessions (counters s)) @ ''},'' @
     quoted ''tcp_server'' @ '':{'' @
       quoted ''active_clients'' @ '':'' @ u32_text (c_tcp_server_active_clients (counters s)) @
       '','' @ quoted ''max_clients'' @ '':'' @ u32_text (c_tcp_server_max_clients (counters s)) @ ''}}''"

definition write_status_json ::
    "string \<Rightarrow> string \<Rightarrow> bridge_telemetry_snapshot \<Rightarrow> web_write list" where
  "write_status_json header body snapshot =
     write_text_response header ''200 OK'' ''application/json''
       (fst (snprintk body WEB_APP_JSON_BUF_SIZE (status_json snapshot)))"

section \<open>Serving a request\<close>

fun find_asset_in :: "web_asset list \<Rightarrow> string \<Rightarrow> nat \<Rightarrow> web_asset option" where
  "find_asset_in [] p path_len = None"
| "find_asset_in (a # as) p path_len =
     (if strlen (path a) = path_len \<and> strncmp_equal p (path a) path_len then Some a
      else find_asset_in as p path_len)"

definition find_asset :: "web_files \<Rightarrow> string \<Rightarrow> nat \<Rightarrow> web_asset option" where
  "find_asset files = find_asset_in (assets files)"

text \<open>The arrays on the stack: the response header's and the JSON text's.\<close>

record web_garbage =
  header_array :: string
  body_array :: string

definition text_plain :: string where
  "text_plain = ''text/plain; charset=utf-8''"

text \<open>
  \<open>received\<close> is what \<open>zsock_recv\<close> stored, at most \<open>WEB_APP_RX_BUF_SIZE - 1\<close> characters, or its
  error; \<open>take_snapshot\<close> is \<open>bridge_telemetry_get_snapshot\<close> on the state of the other components.
\<close>

definition handle_client ::
    "web_files \<Rightarrow> web_garbage \<Rightarrow> ('s \<Rightarrow> bridge_telemetry_snapshot \<times> 's) \<Rightarrow> errno + string \<Rightarrow> 's
       \<Rightarrow> web_write list \<times> 's" where
  "handle_client files g take_snapshot received s =
     (case received of
        Inl e \<Rightarrow> ([], s)
      | Inr request \<Rightarrow>
          if request = [] then ([], s)
          else if \<not> strncmp_equal request ''GET '' 4
          then (write_text_response (header_array g) ''405 Method Not Allowed'' text_plain
                  (''method not allowed'' @ [CHR 0x0A]), s)
          else (let p = drop 4 request
                in case strchr p (CHR '' '') of
                  None \<Rightarrow>
                    (write_text_response (header_array g) ''400 Bad Request'' text_plain
                       (''bad request'' @ [CHR 0x0A]), s)
                | Some n \<Rightarrow>
                    if strncmp_equal p ''/api/status'' n \<and> n = strlen ''/api/status''
                    then (case take_snapshot s of
                            (snapshot, s1) \<Rightarrow>
                              (write_status_json (header_array g) (body_array g) snapshot, s1))
                    else (case find_asset files p n of
                            Some asset \<Rightarrow> (write_asset_response (header_array g) asset, s)
                          | None \<Rightarrow>
                              (write_text_response (header_array g) ''404 Not Found'' text_plain
                                 (''not found'' @ [CHR 0x0A]), s))))"

section \<open>The thread\<close>

text \<open>\<open>Web_sending\<close>: in \<open>send_all\<close> for the first of the writes, with that many bytes sent.\<close>

datatype web_pc =
    Web_none
  | Web_setup
  | Web_accept
  | Web_handle int
  | Web_send int "web_write list"
  | Web_sending int nat "web_write list"
  | Web_close int
  | Web_stopped

text \<open>\<open>web_wire\<close> collects what the socket of the current connection has accepted.\<close>

record web_app =
  web_started :: bool
  web_thread :: web_pc
  web_listen_fd :: int
  web_wire :: string

definition web_storage :: web_app where
  "web_storage = \<lparr>web_started = False, web_thread = Web_none, web_listen_fd = - 1, web_wire = []\<rparr>"

datatype web_input =
    Web_setup_answers "errno + nat" status status
  | Web_accept_answer "errno + nat"
  | Web_request "errno + string" web_garbage
  | Web_send_answers "errno option" "io_answer list"
  | Web_no_answer

text \<open>The calls before the accept loop: the descriptor, whether it listens, those closed.\<close>

definition web_listen :: "errno + nat \<Rightarrow> status \<Rightarrow> status \<Rightarrow> int \<times> bool \<times> int list" where
  "web_listen socket bind listen =
     (case socket of
        Inl e \<Rightarrow> (- 1, False, [])
      | Inr fd \<Rightarrow>
          if bind \<noteq> success then (int fd, False, [int fd])
          else if listen \<noteq> success then (int fd, False, [int fd])
          else (int fd, True, []))"

text \<open>A part of a write, as far as the answers go; its result is ignored.\<close>

definition web_send_step ::
    "int \<Rightarrow> web_write \<Rightarrow> web_write list \<Rightarrow> nat \<Rightarrow> errno option \<Rightarrow> io_answer list \<Rightarrow> web_app \<Rightarrow> web_app" where
  "web_send_step fd write writes sent_total errno0 as w =
     (case web_send_loop errno0 (fst write) (snd write) sent_total as (web_wire w) of
        (Inl sent, wire) \<Rightarrow> w\<lparr>web_thread := Web_sending fd sent (write # writes), web_wire := wire\<rparr>
      | (Inr _, wire) \<Rightarrow> w\<lparr>web_thread := Web_send fd writes, web_wire := wire\<rparr>)"

text \<open>
  One step of \<open>web_app_thread\<close>; after a failed \<open>accept\<close> it sleeps 1 s and tries again. The last
  component lists the descriptors closed.
\<close>

definition web_step ::
    "web_files \<Rightarrow> ('s \<Rightarrow> bridge_telemetry_snapshot \<times> 's) \<Rightarrow> web_input \<Rightarrow> web_app \<times> 's
       \<Rightarrow> (web_app \<times> 's) \<times> int list" where
  "web_step files take_snapshot input ws =
     (let (w, s) = ws
      in case (web_thread w, input) of
        (Web_setup, Web_setup_answers socket bind listen) \<Rightarrow>
          (let (fd, ok, closes) = web_listen socket bind listen
           in ((w\<lparr>web_listen_fd := fd, web_thread := if ok then Web_accept else Web_stopped\<rparr>, s), closes))
      | (Web_accept, Web_accept_answer (Inr fd)) \<Rightarrow>
          ((w\<lparr>web_thread := Web_handle (int fd), web_wire := []\<rparr>, s), [])
      | (Web_handle fd, Web_request received g) \<Rightarrow>
          (case handle_client files g take_snapshot received s of
             (writes, s1) \<Rightarrow> ((w\<lparr>web_thread := Web_send fd writes\<rparr>, s1), []))
      | (Web_send fd [], _) \<Rightarrow> ((w\<lparr>web_thread := Web_close fd\<rparr>, s), [])
      | (Web_send fd ((buf, n) # writes), Web_send_answers errno0 as) \<Rightarrow>
          ((web_send_step fd (buf, n) writes 0 errno0 as w, s), [])
      | (Web_sending fd sent_total ((buf, n) # writes), Web_send_answers errno0 as) \<Rightarrow>
          ((web_send_step fd (buf, n) writes sent_total errno0 as w, s), [])
      | (Web_close fd, _) \<Rightarrow> ((w\<lparr>web_thread := Web_accept\<rparr>, s), [fd])
      | _ \<Rightarrow> (ws, []))"

text \<open>The second component says whether the thread was created.\<close>

definition web_app_start :: "app_config \<Rightarrow> web_app \<Rightarrow> status \<times> bool \<times> web_app" where
  "web_app_start c w =
     (if \<not> web_app_enable c then (success, False, w)
      else if \<not> web_started w
      then (success, True, w\<lparr>web_started := True, web_thread := Web_setup\<rparr>)
      else (success, False, w))"

end
