(* ===== verification/Web_Facts.thy ===== *)
theory Web_Facts
  imports Web Telemetry_Facts "HOL-Library.Multiset"
begin

text \<open>
  The web server: its send loop, its replies as a function of the request, the JSON as a faithful
  rendering of the snapshot, and its socket descriptors.
\<close>

section \<open>The send loop\<close>

lemma web_send_all_simps [simp]:
  "web_send_all errno0 buf n sent_total [] wire =
     (if sent_total < n then None else Some ((success, []), wire))"
  "web_send_all errno0 buf n sent_total (a # as) wire =
     (if \<not> sent_total < n then Some ((success, a # as), wire)
      else case a of
        Inr sent \<Rightarrow>
          if 0 < sent
          then web_send_all errno0 buf n (sent_total + sent) as
                 (wire @ take sent (take (n - sent_total) (drop sent_total buf)))
          else Some ((case errno0 of None \<Rightarrow> success | Some e \<Rightarrow> failure e, as), wire)
      | Inl e \<Rightarrow>
          if e = EINTR then web_send_all errno0 buf n sent_total as wire
          else Some ((failure e, as), wire))"
  by (simp_all add: web_send_all_def split: sum.split)

lemma web_send_loop_end:
  "web_send_all errno0 buf n sent as wire = Some (r, wire') \<Longrightarrow>
     web_send_loop errno0 buf n sent as wire = (Inr r, wire')"
  by (auto simp: web_send_all_def split: prod.splits sum.splits)

interpretation web_transmit: transmit_loop
  "\<lambda>buf. web_send_all errno0 buf (length buf)" "\<lambda>r. fst r = success" "\<lambda>e. e = EINTR"
  "\<lambda>_. True" True for errno0
proof unfold_locales
  fix buf wire :: string and sent n :: nat and as :: "io_answer list" and e :: errno
  show "\<exists>r. web_send_all errno0 buf (length buf) sent as wire = Some (r, wire) \<and> fst r = success"
    if "length buf \<le> sent"
    using that by (cases as) simp_all
  assume lt: "sent < length buf"
  then show "web_send_all errno0 buf (length buf) sent [] wire = None" by simp
  show "web_send_all errno0 buf (length buf) sent (Inr n # as) wire =
      web_send_all errno0 buf (length buf) (sent + n) as (wire @ take n (drop sent buf))" if "0 < n"
    using lt that by simp
  show "\<exists>r. web_send_all errno0 buf (length buf) sent (Inr 0 # as) wire = Some (r, wire) \<and>
      (True \<or> fst r \<noteq> success)"
    using lt by simp
  show "web_send_all errno0 buf (length buf) sent (Inl e # as) wire =
      web_send_all errno0 buf (length buf) sent as wire" if "e = EINTR"
    using lt that by simp
  show "\<exists>r. web_send_all errno0 buf (length buf) sent (Inl e # as) wire = Some (r, wire) \<and>
      fst r \<noteq> success" if "e \<noteq> EINTR"
    using lt that by simp
qed

text \<open>Only the first \<open>n\<close> bytes of the array matter.\<close>

lemma web_send_prefix:
  "n \<le> length buf \<Longrightarrow>
     web_send_all errno0 buf n sent as wire = web_send_all errno0 (take n buf) (length (take n buf)) sent as wire"
proof (induction as arbitrary: sent wire)
  case Nil
  then show ?case by simp
next
  case (Cons a as)
  have same: "take (n - sent) (drop sent (take n buf)) = take (n - sent) (drop sent buf)"
    by (simp add: drop_take)
  show ?case using Cons same by (cases a) (auto simp: min_absorb2)
qed

text \<open>
  What the web server's \<open>send_all\<close> has put on the socket when it returns: the whole buffer, in
  order and once, however the calls cut it up and however often they were interrupted; or, when a
  call failed or returned 0, a proper prefix of it. It ends as soon as as many calls made progress
  as there are bytes.
\<close>

theorem web_send_exact:
  assumes "n \<le> length buf"
  shows "(web_send_all errno0 buf n 0 as wire = Some ((ret, rest), wire') \<longrightarrow>
           wire' = wire @ take n buf \<and> ret = success \<or>
           (\<exists>k < n. wire' = wire @ take k buf)) \<and>
         (n \<le> length (filter (\<lambda>a. \<exists>m > 0. a = Inr m) as) \<longrightarrow>
           web_send_all errno0 buf n 0 as wire \<noteq> None)"
proof -
  note pre = web_send_prefix [OF assms, of errno0 0 as wire]
  have "wire' = wire @ take n buf \<and> ret = success \<or> (\<exists>k < n. wire' = wire @ take k buf)"
    if "web_send_all errno0 buf n 0 as wire = Some ((ret, rest), wire')"
  proof -
    have "wire' = wire @ take n buf \<and> fst (ret, rest) = success \<or>
        (\<exists>k < n. wire' = wire @ take k (take n buf))"
      using web_transmit.run_wire [OF _ that [unfolded pre]] assms by (auto simp: min_absorb2)
    then show ?thesis by (metis fst_conv min.strict_order_iff take_take)
  qed
  moreover have "web_send_all errno0 buf n 0 as wire \<noteq> None"
    if "n \<le> length (filter (\<lambda>a. \<exists>m > 0. a = Inr m) as)"
    unfolding pre by (rule web_transmit.run_ends) (use that in simp_all)
  ultimately show ?thesis by blast
qed

theorem web_send_exact_witness:
  "web_send_all None ''hello!'' 5 0 [Inr 2, Inl EINTR, Inr 3] [] = Some ((success, []), ''hello'')"
proof -
  have run: "web_send_all None ''hello!'' 5 0 [Inr 2, Inl EINTR, Inr 3] [] =
      Some ((success, []), ''hello'')" by code_simp
  have "(5 :: nat) \<le> length ''hello!''" by simp
  from web_send_exact [OF this, of None "[Inr 2, Inl EINTR, Inr 3]" "[]" success "[]" "''hello''"] run
  show ?thesis by blast
qed

section \<open>Replies\<close>

text \<open>Every file fits the 32-bit \<open>size_t\<close> of the device.\<close>

definition files_fit :: "web_files \<Rightarrow> bool" where
  "files_fit files \<longleftrightarrow> length (index_html files) < 2 ^ 32 \<and> length (app_js files) < 2 ^ 32 \<and>
     length (style_css files) < 2 ^ 32"

text \<open>The reply to a request: status, content type and body.\<close>

definition http_reply ::
    "web_files \<Rightarrow> ('s \<Rightarrow> bridge_telemetry_snapshot \<times> 's) \<Rightarrow> string \<Rightarrow> 's
       \<Rightarrow> (string \<times> string \<times> string) \<times> 's" where
  "http_reply files take_snapshot request s =
     (let line = takeWhile (\<lambda>c. c \<noteq> NUL) (drop 4 request);
          target = takeWhile (\<lambda>c. c \<noteq> CHR '' '') line
      in if take 4 request \<noteq> ''GET ''
         then ((''405 Method Not Allowed'', text_plain, ''method not allowed'' @ [CHR 0x0A]), s)
         else if CHR '' '' \<notin> set line
         then ((''400 Bad Request'', text_plain, ''bad request'' @ [CHR 0x0A]), s)
         else if target = ''/api/status''
         then ((''200 OK'', ''application/json'', status_json (fst (take_snapshot s))),
               snd (take_snapshot s))
         else (case find (\<lambda>a. path a = target) (assets files) of
                 Some a \<Rightarrow> ((''200 OK'', content_type a, content a), s)
               | None \<Rightarrow> ((''404 Not Found'', text_plain, ''not found'' @ [CHR 0x0A]), s)))"

text \<open>What the writes send.\<close>

definition sent_by :: "web_write list \<Rightarrow> string list" where
  "sent_by writes = map (\<lambda>(buf, n). take n buf) writes"

definition writes_fit :: "web_write list \<Rightarrow> bool" where
  "writes_fit writes \<longleftrightarrow> (\<forall>(buf, n) \<in> set writes. n \<le> length buf)"

lemma header_short:
  assumes "length status + length ctype \<le> 60" and "n < 2 ^ 32"
  shows "length (header_text status ctype n) < 192"
proof -
  have "n < 10 ^ Suc 9" using assms(2) by simp
  from decimal_length [OF this] show ?thesis using assms(1)
    by (simp add: header_text_def crlf_def)
qed

lemma header_write:
  assumes "length status + length ctype \<le> 60" and "n < 2 ^ 32"
  shows "sent_by (write_response_header header status ctype n) = [header_text status ctype n]"
    and "writes_fit (write_response_header header status ctype n)"
proof -
  note fits = snprintk_fits [OF header_short [OF assms], of header]
  have "0 < length (header_text status ctype n)" by (simp add: header_text_def)
  then show "sent_by (write_response_header header status ctype n) = [header_text status ctype n]"
    and "writes_fit (write_response_header header status ctype n)"
    unfolding write_response_header_def fits by (simp_all add: sent_by_def writes_fit_def)
qed

lemma text_write:
  assumes "length status + length ctype \<le> 60" and "strlen body < 2 ^ 32"
  shows "sent_by (write_text_response header status ctype body) =
      [header_text status ctype (strlen body), take (strlen body) body]"
    and "writes_fit (write_text_response header status ctype body)"
  using header_write [OF assms] length_takeWhile_le [of "\<lambda>c. c \<noteq> NUL" body]
  by (simp_all add: write_text_response_def sent_by_def writes_fit_def strlen_def ball_Un)

text \<open>The JSON text has no terminator inside and always fits its array.\<close>

lemma decimal_no_nul: "NUL \<notin> set (decimal n)"
  using decimal_digits by (fastforce simp: is_digit_def)

lemma json_no_nul: "NUL \<notin> set (status_json s)"
  by (auto simp: status_json_def quoted_def connection_text_def input_text_def bool_text_def
      u32_text_def decimal_no_nul)

lemma u32_text_length: "length (u32_text w) \<le> 10"
proof -
  have "unat w < 2 ^ 32" using unsigned_less [of w] by simp
  then have "unat w < 10 ^ Suc 9" by simp
  then show ?thesis unfolding u32_text_def by (rule decimal_length [THEN order_trans]) simp
qed

lemma bool_text_length: "length (bool_text b) \<le> 5"
  by (simp add: bool_text_def)

lemma state_text_lengths: "length (connection_text st) \<le> 12" "length (input_text st') \<le> 6"
  by (simp_all add: connection_text_def input_text_def)

lemma json_short: "length (status_json s) < 1024"
proof -
  note b = bool_text_length [of "data_quality (warnings s)"] bool_text_length [of "frame_loss (warnings s)"]
    bool_text_length [of "snapshot_sta_ready s"]
  note t = state_text_lengths(1) [of "connection_state s"] state_text_lengths(2) [of "input_state s"]
  show ?thesis
    using b t u32_text_length [of "c_uart_bytes_rx (counters s)"]
      u32_text_length [of "c_uart_lines_rx (counters s)"]
      u32_text_length [of "c_uart_overlong_lines (counters s)"]
      u32_text_length [of "c_bridge_frames_in (counters s)"]
      u32_text_length [of "c_bridge_ingest_dropped_oldest (counters s)"]
      u32_text_length [of "c_bridge_sink_dropped_oldest (counters s)"]
      u32_text_length [of "c_bridge_publish_no_sinks (counters s)"]
      u32_text_length [of "c_bridge_publish_invalid (counters s)"]
      u32_text_length [of "c_bridge_publish_oversize (counters s)"]
      u32_text_length [of "c_tcp_nmea_active_sessions (counters s)"]
      u32_text_length [of "c_tcp_server_active_clients (counters s)"]
      u32_text_length [of "c_tcp_server_max_clients (counters s)"]
    by (simp add: status_json_def quoted_def)
qed

lemma strlen_terminated: "NUL \<notin> set t \<Longrightarrow> strlen (t @ NUL # rest) = length t"
  unfolding strlen_def by (subst takeWhile_append2) auto

lemma json_write:
  "sent_by (write_status_json header body s) =
     [header_text ''200 OK'' ''application/json'' (length (status_json s)), status_json s]"
  "writes_fit (write_status_json header body s)"
proof -
  let ?old = "drop (Suc (length (status_json s))) body"
  have "length (status_json s) < WEB_APP_JSON_BUF_SIZE"
    using json_short [of s] by (simp add: WEB_APP_JSON_BUF_SIZE_def)
  from snprintk_fits [OF this, of body]
  have buf: "fst (snprintk body WEB_APP_JSON_BUF_SIZE (status_json s)) = status_json s @ NUL # ?old" by simp
  note n = strlen_terminated [OF json_no_nul, of s ?old]
  have "strlen (status_json s @ NUL # ?old) < 2 ^ 32" unfolding n using json_short [of s] by simp
  note w = text_write [OF _ this, of "''200 OK''" "''application/json''" header]
  show "sent_by (write_status_json header body s) =
      [header_text ''200 OK'' ''application/json'' (length (status_json s)), status_json s]"
    and "writes_fit (write_status_json header body s)"
    unfolding write_status_json_def buf using w n by simp_all
qed

lemma asset_write:
  assumes "length (content_type a) \<le> 40" and "length (content a) < 2 ^ 32"
  shows "sent_by (write_asset_response header a) =
      [header_text ''200 OK'' (content_type a) (length (content a)), content a]"
    and "writes_fit (write_asset_response header a)"
proof -
  have "length ''200 OK'' + length (content_type a) \<le> 60" using assms(1) by simp
  note h = header_write [OF this assms(2), of header]
  show "sent_by (write_asset_response header a) =
      [header_text ''200 OK'' (content_type a) (length (content a)), content a]"
    and "writes_fit (write_asset_response header a)"
    using h by (simp_all add: write_asset_response_def Let_def sent_by_def writes_fit_def)
qed

text \<open>The search for the asset is the search of its path.\<close>

lemma asset_paths: "a \<in> set (assets files) \<Longrightarrow> NUL \<notin> set (path a) \<and> length (content_type a) \<le> 40"
  by (auto simp: assets_def)

lemma asset_fits: "files_fit files \<Longrightarrow> a \<in> set (assets files) \<Longrightarrow> length (content a) < 2 ^ 32"
  by (auto simp: assets_def files_fit_def)

lemma find_asset_in_find:
  "\<forall>a \<in> set as. NUL \<notin> set (path a) \<Longrightarrow>
     n \<le> length p \<Longrightarrow> find_asset_in as p n = find (\<lambda>a. path a = take n p) as"
proof (induction as)
  case Nil
  then show ?case by simp
next
  case (Cons a as)
  then have "strlen (path a) = n \<and> strncmp_equal p (path a) n \<longleftrightarrow> path a = take n p"
    using strlen_literal [of "path a"] strncmp_literal [of "path a" p] by auto
  then show ?case using Cons by simp
qed

lemma find_Some_in: "find P xs = Some x \<Longrightarrow> x \<in> set xs"
  by (induction xs) (auto split: if_splits)

lemma target_eq:
  "strchr p x = Some n \<Longrightarrow> x \<noteq> NUL \<Longrightarrow>
     takeWhile (\<lambda>c. c \<noteq> x) (takeWhile (\<lambda>c. c \<noteq> NUL) p) = take n p \<and> n \<le> length p"
  by (induction p arbitrary: n) (auto split: if_splits)

text \<open>The writes that send a reply: its header and its body, within their buffers.\<close>

definition sends_reply :: "web_write list \<Rightarrow> string \<times> string \<times> string \<Rightarrow> bool" where
  "sends_reply writes r \<longleftrightarrow>
     (case r of (status, ctype, body) \<Rightarrow>
        sent_by writes = [header_text status ctype (length body), body] \<and> writes_fit writes)"

lemma sends_plain:
  assumes "NUL \<notin> set t" and "length st \<le> 35" and "length t < 100"
  shows "sends_reply (write_text_response header st text_plain t) (st, text_plain, t)"
  using text_write [of st text_plain t header] strlen_literal [OF assms(1)] assms(2,3)
  by (simp add: sends_reply_def text_plain_def)

lemma sends_json: "sends_reply (write_status_json header body x) (''200 OK'', ''application/json'', status_json x)"
  using json_write [of header body x] by (simp add: sends_reply_def)

lemma sends_asset:
  assumes "a \<in> set (assets files)" and "files_fit files"
  shows "sends_reply (write_asset_response header a) (''200 OK'', content_type a, content a)"
  using asset_write [OF asset_paths [OF assms(1), THEN conjunct2] asset_fits [OF assms(2,1)]]
  by (simp add: sends_reply_def)

text \<open>The comparisons of the code with the literals.\<close>

lemma is_get: "strncmp_equal request ''GET '' 4 \<longleftrightarrow> take 4 request = ''GET ''"
  by (rule strncmp_whole) simp_all

lemma is_api:
  assumes "n \<le> length p"
  shows "strncmp_equal p ''/api/status'' n \<and> n = strlen ''/api/status'' \<longleftrightarrow> take n p = ''/api/status''"
proof -
  have len: "strlen ''/api/status'' = length ''/api/status''" by (rule strlen_literal) simp
  show ?thesis
  proof (cases "n = length ''/api/status''")
    case True
    have "strncmp_equal p ''/api/status'' n \<longleftrightarrow> take n p = ''/api/status''"
      by (rule strncmp_whole [OF _ True]) simp
    then show ?thesis by (simp only: True len simp_thms)
  next
    case False
    have "length (take n p) = n" using assms by simp
    then have "take n p \<noteq> ''/api/status''" using False by metis
    then show ?thesis by (simp only: False len simp_thms)
  qed
qed

lemma finds_path: "n \<le> length p \<Longrightarrow> find_asset files p n = find (\<lambda>a. path a = take n p) (assets files)"
  unfolding find_asset_def using find_asset_in_find asset_paths by blast

text \<open>A \<open>GET\<close> request whose target ends with a blank: what the code does and what the reply is.\<close>

lemma handle_get:
  assumes "request \<noteq> []" and "take 4 request = ''GET ''" and "strchr (drop 4 request) (CHR '' '') = Some n"
    and "p = take n (drop 4 request)"
  shows "handle_client files g take_snapshot (Inr request) s =
      (if p = ''/api/status''
       then (write_status_json (header_array g) (body_array g) (fst (take_snapshot s)),
             snd (take_snapshot s))
       else (case find (\<lambda>a. path a = p) (assets files) of
               Some asset \<Rightarrow> (write_asset_response (header_array g) asset, s)
             | None \<Rightarrow> (write_text_response (header_array g) ''404 Not Found'' text_plain
                           (''not found'' @ [CHR 0x0A]), s)))"
proof -
  have "n \<le> length (drop 4 request)" using target_eq [OF assms(3)] by simp
  note eqs = is_get is_api [OF this] finds_path [OF this, of files]
  show ?thesis
    unfolding handle_client_def Let_def assms(4)
    by (simp only: sum.case assms(1-3) eqs option.case if_True if_False simp_thms split_beta)
qed

lemma reply_get:
  assumes "take 4 request = ''GET ''" and "strchr (drop 4 request) (CHR '' '') = Some n"
    and "p = take n (drop 4 request)"
  shows "http_reply files take_snapshot request s =
      (if p = ''/api/status''
       then ((''200 OK'', ''application/json'', status_json (fst (take_snapshot s))),
             snd (take_snapshot s))
       else (case find (\<lambda>a. path a = p) (assets files) of
               Some a \<Rightarrow> ((''200 OK'', content_type a, content a), s)
             | None \<Rightarrow> ((''404 Not Found'', text_plain, ''not found'' @ [CHR 0x0A]), s)))"
proof -
  let ?line = "takeWhile (\<lambda>c. c \<noteq> NUL) (drop 4 request)"
  have target: "takeWhile (\<lambda>c. c \<noteq> CHR '' '') ?line = p" using target_eq [OF assms(2)] assms(3) by simp
  have space: "CHR '' '' \<in> set ?line"
  proof (rule ccontr)
    assume "CHR '' '' \<notin> set ?line"
    then have "strchr (drop 4 request) (CHR '' '') = None" by (subst strchr_none) simp_all
    then show False using assms(2) by simp
  qed
  show ?thesis
    unfolding http_reply_def Let_def
    by (simp only: assms(1) space target simp_thms if_True if_False not_True_eq_False)
qed

lemma get_sends_reply:
  assumes "request \<noteq> []" and "take 4 request = ''GET ''" and "strchr (drop 4 request) (CHR '' '') = Some n"
    and "files_fit files"
  shows "snd (handle_client files g take_snapshot (Inr request) s) = snd (http_reply files take_snapshot request s) \<and>
    sends_reply (fst (handle_client files g take_snapshot (Inr request) s))
      (fst (http_reply files take_snapshot request s))"
proof (cases "take n (drop 4 request) = ''/api/status''")
  case True
  then show ?thesis unfolding handle_get [OF assms(1-3) refl] reply_get [OF assms(2,3) refl]
    by (simp add: sends_json)
next
  case False
  show ?thesis
  proof (cases "find (\<lambda>a. path a = take n (drop 4 request)) (assets files)")
    case None
    then show ?thesis unfolding handle_get [OF assms(1-3) refl] reply_get [OF assms(2,3) refl]
      by (simp only: False if_False option.case fst_conv snd_conv) (simp add: sends_plain)
  next
    case (Some a)
    note sent = sends_asset [OF find_Some_in [OF Some] assms(4)]
    show ?thesis unfolding handle_get [OF assms(1-3) refl] reply_get [OF assms(2,3) refl]
      by (simp only: False Some if_False option.case fst_conv snd_conv sent)
  qed
qed

text \<open>
  C8: The web server answers as HTTP asks. For every request it reads it sends a header with the
  status and content type of the reply and with the exact length of its body, and then that body:
  the JSON status for \<open>/api/status\<close>, a file for a known path, 400, 404 and 405 otherwise. The
  header always fits its array of 192 characters and the JSON text its array of 1024, so nothing is
  cut and no write reads past the end of an array.
\<close>

theorem http_refines_reply:
  assumes "request \<noteq> []" and "files_fit files"
    and "handle_client files g take_snapshot (Inr request) s = (writes, s1)"
    and "http_reply files take_snapshot request s = ((status, ctype, body), s2)"
  shows "s1 = s2 \<and> sent_by writes = [header_text status ctype (length body), body] \<and>
    writes_fit writes"
proof -
  have "s1 = s2 \<and> sends_reply writes (status, ctype, body)"
  proof (cases "take 4 request = ''GET ''")
    case False
    then show ?thesis using assms is_get [of request]
      by (auto simp: handle_client_def http_reply_def sends_plain)
  next
    case get: True
    show ?thesis
    proof (cases "strchr (drop 4 request) (CHR '' '')")
      case None
      then have "CHR '' '' \<notin> set (takeWhile (\<lambda>c. c \<noteq> NUL) (drop 4 request))"
        using strchr_none [of "CHR '' ''" "drop 4 request"] by simp
      then show ?thesis using None get is_get [of request] assms
        by (auto simp: handle_client_def http_reply_def sends_plain)
    next
      case (Some n)
      from get_sends_reply [OF assms(1) get Some assms(2), of g take_snapshot s] show ?thesis
        by (simp add: assms(3,4))
    qed
  qed
  then show ?thesis by (simp add: sends_reply_def)
qed

definition demo_files :: web_files where
  "demo_files = \<lparr>index_html = ''hello'', app_js = ''x=1'', style_css = []\<rparr>"

theorem http_refines_reply_witness:
  "sent_by (fst (handle_client demo_files \<lparr>header_array = [], body_array = []\<rparr>
     (\<lambda>s. (demo_snapshot, s)) (Inr ''GET /app.js HTTP/1.1'') ())) =
     [header_text ''200 OK'' ''application/javascript'' 3, ''x=1'']"
proof -
  let ?h = "handle_client demo_files \<lparr>header_array = [], body_array = []\<rparr> (\<lambda>s. (demo_snapshot, s))
    (Inr ''GET /app.js HTTP/1.1'') ()"
  have fit: "files_fit demo_files" by (simp add: files_fit_def demo_files_def)
  have reply: "http_reply demo_files (\<lambda>s. (demo_snapshot, s)) ''GET /app.js HTTP/1.1'' () =
      ((''200 OK'', ''application/javascript'', ''x=1''), ())"
    by (simp add: http_reply_def assets_def demo_files_def)
  show ?thesis
    using http_refines_reply [OF _ fit prod.collapse [symmetric] reply] by (simp add: numeral_3_eq_3)
qed

section \<open>The JSON text\<close>

text \<open>Each variable part of the text ends where the next fixed character stands.\<close>

lemma text_cuts:
  "connection_text a @ CHR 0x22 # x = connection_text b @ CHR 0x22 # y \<longleftrightarrow> a = b \<and> x = y"
  "input_text i @ CHR 0x22 # x = input_text j @ CHR 0x22 # y \<longleftrightarrow> i = j \<and> x = y"
  by (cases a; cases b; simp add: connection_text_def)
    (cases i; cases j; simp add: input_text_def)

lemma bool_cut:
  "bool_text a @ c # x = bool_text b @ c # y \<longleftrightarrow> a = b \<and> x = y"
  by (cases a; cases b) (auto simp: bool_text_def)

lemma u32_cut:
  "\<not> is_digit c \<Longrightarrow> u32_text a @ c # x = u32_text b @ c # y \<longleftrightarrow> a = b \<and> x = y"
  unfolding u32_text_def by (simp add: decimal_cut word_unat_eq_iff)

lemma u32_cuts:
  "u32_text a @ CHR '','' # x = u32_text b @ CHR '','' # y \<longleftrightarrow> a = b \<and> x = y"
  "u32_text a @ CHR ''}'' # x = u32_text b @ CHR ''}'' # y \<longleftrightarrow> a = b \<and> x = y"
  by (rule u32_cut, simp add: is_digit_def)+

lemma u32_same: "u32_text a = u32_text b \<longleftrightarrow> a = b"
  using u32_cuts(1) [of a "[]" b "[]"] by simp

text \<open>
  C14: The JSON text loses nothing. Two snapshots with the same text are the same snapshot: every
  counter, flag and state can be read off what the web app serves.
\<close>

theorem status_json_faithful: "status_json s = status_json t \<longleftrightarrow> s = t"
proof
  assume eq: "status_json s = status_json t"
  have fields: "connection_state s = connection_state t" "input_state s = input_state t"
      "warnings s = warnings t" "snapshot_sta_ready s = snapshot_sta_ready t" "counters s = counters t"
    using eq unfolding status_json_def quoted_def append_assoc append_Cons append_Nil
    by (auto simp: text_cuts bool_cut u32_cuts u32_same
        intro!: bridge_telemetry_warnings.equality bridge_telemetry_counters.equality)
  then show "s = t" by (intro bridge_telemetry_snapshot.equality) simp_all
qed simp

section \<open>The thread\<close>

text \<open>
  A response whose header was cut goes on with its body. The result of sending the header is
  ignored: in this run the socket takes 9 bytes of the header and then fails for want of memory,
  and the web server goes on to send the body, so that the peer gets a stream that is no prefix of
  the response.
\<close>

definition cut_web :: web_app where
  "cut_web = web_storage\<lparr>web_started := True, web_listen_fd := 3,
     web_thread := Web_send 4 (write_text_response [] ''404 Not Found'' text_plain (''not found'' @ [CHR 0x0A]))\<rparr>"

theorem cut_header_then_body:
  "fst (fst (web_step demo_files (\<lambda>s. (demo_snapshot, s)) (Web_send_answers None [Inr 10])
      (fst (web_step demo_files (\<lambda>s. (demo_snapshot, s))
        (Web_send_answers None [Inr 9, Inl ENOMEM]) (cut_web, ()))))) =
     cut_web\<lparr>web_thread := Web_send 4 [], web_wire := ''HTTP/1.1 not found'' @ [CHR 0x0A]\<rparr>"
  by code_simp

text \<open>
  The descriptors the thread has obtained and closed in a run, and those it holds.
\<close>

definition web_held :: "web_app \<Rightarrow> int multiset" where
  "web_held w =
     (case web_thread w of
        Web_accept \<Rightarrow> {#web_listen_fd w#}
      | Web_handle fd \<Rightarrow> {#web_listen_fd w, fd#}
      | Web_send fd _ \<Rightarrow> {#web_listen_fd w, fd#}
      | Web_sending fd _ _ \<Rightarrow> {#web_listen_fd w, fd#}
      | Web_close fd \<Rightarrow> {#web_listen_fd w, fd#}
      | _ \<Rightarrow> {#})"

definition web_obtained :: "web_input \<Rightarrow> web_app \<Rightarrow> int multiset" where
  "web_obtained inp w =
     (case (web_thread w, inp) of
        (Web_setup, Web_setup_answers (Inr fd) _ _) \<Rightarrow> {#int fd#}
      | (Web_accept, Web_accept_answer (Inr fd)) \<Rightarrow> {#int fd#}
      | _ \<Rightarrow> {#})"

definition web_account ::
    "web_files \<Rightarrow> ('s \<Rightarrow> bridge_telemetry_snapshot \<times> 's) \<Rightarrow> web_input
       \<Rightarrow> (web_app \<times> 's) \<times> int multiset \<times> int list \<Rightarrow> (web_app \<times> 's) \<times> int multiset \<times> int list" where
  "web_account files take_snapshot inp x =
     (case x of (ws, obtained, closed) \<Rightarrow>
        (case web_step files take_snapshot inp ws of
           (ws', closes) \<Rightarrow> (ws', obtained + web_obtained inp (fst ws), closed @ closes)))"

lemma web_step_account:
  "web_step files take_snapshot inp ws = (ws', closes) \<Longrightarrow>
     mset closes + web_held (fst ws') = web_held (fst ws) + web_obtained inp (fst ws)"
  by (cases ws; cases "web_thread (fst ws)"; cases inp)
    (auto simp: web_step_def web_held_def web_obtained_def web_listen_def web_send_step_def Let_def
      split: sum.splits list.splits prod.splits option.splits if_splits)

interpretation web_machine: invariant_machine "web_account files take_snapshot"
  "\<lambda>(ws, obtained, closed). mset closed + web_held (fst ws) = obtained"
  for files and take_snapshot :: "'s \<Rightarrow> bridge_telemetry_snapshot \<times> 's"
proof unfold_locales
  fix inp and x :: "(web_app \<times> 's) \<times> int multiset \<times> int list"
  obtain ws obtained closed where x: "x = (ws, obtained, closed)" by (metis prod.exhaust)
  obtain ws' closes where st: "web_step files take_snapshot inp ws = (ws', closes)" by (metis prod.exhaust)
  assume "case x of (ws, obtained, closed) \<Rightarrow> mset closed + web_held (fst ws) = obtained"
  then show "case web_account files take_snapshot inp x of
      (ws, obtained, closed) \<Rightarrow> mset closed + web_held (fst ws) = obtained"
    using web_step_account [OF st] unfolding x web_account_def
    by (simp add: st ac_simps)
qed

text \<open>
  C23: The web server leaks no socket and closes none twice. In every run of its thread, whatever
  the calls answer, the descriptors it has obtained from \<open>zsock_socket\<close> and \<open>zsock_accept\<close> are
  those it has closed together with those it holds: the listening socket and at most the one
  connection it is serving.
\<close>

theorem web_descriptors_accounted:
  "case fold (web_account files take_snapshot) inps
      ((snd (snd (web_app_start c web_storage)), s), {#}, []) of
     ((w, _), obtained, closed) \<Rightarrow> obtained = mset closed + web_held w \<and> size (web_held w) \<le> 2"
proof -
  have "case ((snd (snd (web_app_start c web_storage)), s), {#}, []) of
      (ws, obtained, closed) \<Rightarrow> mset closed + web_held (fst ws) = obtained"
    by (simp add: web_app_start_def web_storage_def web_held_def)
  from web_machine.run_inv [OF this, of files take_snapshot inps]
  show ?thesis by (auto simp: web_held_def split: web_pc.split)
qed

section \<open>One request, served\<close>

text \<open>A peer that keeps reading: every call makes progress or is interrupted.\<close>

definition progressing :: "io_answer list \<Rightarrow> bool" where
  "progressing as \<longleftrightarrow> (\<forall>a \<in> set as. (\<exists>m > 0. a = Inr m) \<or> a = Inl EINTR)"

definition accepting_calls :: "io_answer list \<Rightarrow> nat" where
  "accepting_calls as = length (filter (\<lambda>a. \<exists>m > 0. a = Inr m) as)"

lemma web_send_ok:
  assumes "progressing as" and "n \<le> accepting_calls as" and "n \<le> length buf"
  shows "\<exists>rest. web_send_all errno0 buf n 0 as wire = Some ((success, rest), wire @ take n buf)"
proof -
  have "\<exists>r. web_send_all errno0 (take n buf) (length (take n buf)) 0 as wire =
      Some (r, wire @ drop 0 (take n buf)) \<and> fst r = success"
    by (rule web_transmit.run_ok)
      (use assms in \<open>auto simp: progressing_def accepting_calls_def\<close>)
  then show ?thesis using web_send_prefix [OF assms(3)] by force
qed

text \<open>
  C15: A request is served. When the peer's sockets keep accepting bytes the web server sends the
  whole header and the whole body of the reply, closes the connection and goes back to accepting
  the next one, within five steps of the thread.
\<close>

theorem http_request_served:
  assumes "request \<noteq> []" and "files_fit files"
    and "http_reply files take_snapshot request s = ((status, ctype, body), s2)"
    and "progressing as1" and "length (header_text status ctype (length body)) \<le> accepting_calls as1"
    and "progressing as2" and "length body \<le> accepting_calls as2"
    and "web_thread w = Web_handle fd" and "web_wire w = []"
    and "step = web_step files take_snapshot"
  shows "\<exists>w1 w2 w3 w4. step (Web_request (Inr request) g) (w, s) = ((w1, s2), []) \<and>
    step (Web_send_answers e1 as1) (w1, s2) = ((w2, s2), []) \<and>
    step (Web_send_answers e2 as2) (w2, s2) = ((w3, s2), []) \<and>
    step Web_no_answer (w3, s2) = ((w4, s2), []) \<and>
    step Web_no_answer (w4, s2) =
      ((w\<lparr>web_thread := Web_accept, web_wire := header_text status ctype (length body) @ body\<rparr>, s2), [fd])"
proof -
  obtain writes s1 where h: "handle_client files g take_snapshot (Inr request) s = (writes, s1)"
    by (metis prod.exhaust)
  have r: "s1 = s2" "sent_by writes = [header_text status ctype (length body), body]" "writes_fit writes"
    using http_refines_reply [OF assms(1,2) h assms(3)] by simp_all
  obtain b1 n1 b2 n2 where writes: "writes = [(b1, n1), (b2, n2)]"
      "take n1 b1 = header_text status ctype (length body)" "take n2 b2 = body"
    using r(2) by (auto simp: sent_by_def)
  have n: "n1 \<le> length b1" "n2 \<le> length b2" using r(3) writes(1) by (simp_all add: writes_fit_def)
  then have "n1 \<le> accepting_calls as1" "n2 \<le> accepting_calls as2"
    using assms(5,7) writes(2,3) by (metis length_take min.absorb2)+
  then obtain rest1 rest2 where
      "web_send_all e1 b1 n1 0 as1 [] = Some ((success, rest1), take n1 b1)"
      "web_send_all e2 b2 n2 0 as2 (take n1 b1) = Some ((success, rest2), take n1 b1 @ take n2 b2)"
    using web_send_ok [OF assms(4) _ n(1), of e1 "[]"] web_send_ok [OF assms(6) _ n(2), of e2 "take n1 b1"]
    by auto
  then show ?thesis
    using h writes assms(8,9) r(1) web_send_loop_end
    by (simp add: assms(10) web_step_def web_send_step_def Let_def)
qed

lemma accepting_replicate: "progressing (replicate k (Inr 1))" "accepting_calls (replicate k (Inr 1)) = k"
  by (simp_all add: progressing_def accepting_calls_def)

theorem http_request_served_witness:
  "\<exists>w3 w4 :: web_app.
     web_step demo_files (\<lambda>s. (demo_snapshot, s)) Web_no_answer (w4, ()) =
       ((web_storage\<lparr>web_thread := Web_accept,
           web_wire := header_text ''200 OK'' ''application/javascript'' 3 @ ''x=1''\<rparr>, ()), [4]) \<and>
     web_step demo_files (\<lambda>s. (demo_snapshot, s)) Web_no_answer (w3, ()) = ((w4, ()), [])"
proof -
  let ?as = "replicate 192 (Inr 1) :: io_answer list"
  have fit: "files_fit demo_files" by (simp add: files_fit_def demo_files_def)
  have reply: "http_reply demo_files (\<lambda>s. (demo_snapshot, s)) ''GET /app.js HTTP/1.1'' () =
      ((''200 OK'', ''application/javascript'', ''x=1''), ())"
    by (simp add: http_reply_def assets_def demo_files_def)
  have three: "length ''x=1'' = 3" by simp
  have "length (header_text ''200 OK'' ''application/javascript'' 3) < 192"
    by (rule header_short) simp_all
  then have header: "length (header_text ''200 OK'' ''application/javascript'' (length ''x=1'')) \<le>
      accepting_calls ?as"
    unfolding three accepting_replicate(2) by (rule less_imp_le)
  have body: "length ''x=1'' \<le> accepting_calls ?as"
    unfolding three accepting_replicate(2) by simp
  have pc: "web_thread (web_storage\<lparr>web_thread := Web_handle 4\<rparr>) = Web_handle 4"
      "web_wire (web_storage\<lparr>web_thread := Web_handle 4\<rparr>) = []"
    by (simp_all add: web_storage_def)
  show ?thesis
    using http_request_served [OF _ fit reply accepting_replicate(1) header accepting_replicate(1) body
        pc refl, of "\<lparr>header_array = [], body_array = []\<rparr>" None None]
    unfolding three by auto
qed

end
