(* ===== verification/Dns_Sd.thy ===== *)
theory Dns_Sd
  imports Web Server
begin

text \<open>
  \<open>src/nmea_dns_sd.c\<close>: the services the device advertises with DNS-SD. The file only has data
  that the preprocessor selects; \<open>DNS_SD_REGISTER_TCP_SERVICE\<close> registers a record with Zephyr's
  responder and takes the text array without its terminator.
\<close>

section \<open>TXT records\<close>

definition nmea_txt :: string where
  "nmea_txt =
     CHR 0x09 # ''txtvers=1'' @
     CHR 0x0D # ''talkers=GP,AI'' @
     CHR 0x12 # ''content=gps,ais-rx'' @
     CHR 0x0D # ''source=maiana'' @
     CHR 0x04 # ''ro=1''"

definition http_txt :: string where
  "http_txt =
     CHR 0x09 # ''txtvers=1'' @
     CHR 0x06 # ''path=/''"

text \<open>
  The format RFC 6763 gives a TXT record: strings of 1 to 255 bytes, each with its length in front.
  \<open>txt_decode\<close> is what a reader of the record does.
\<close>

definition txt_encode :: "string list \<Rightarrow> string" where
  "txt_encode rs = concat (map (\<lambda>r. char_of (length r) # r) rs)"

function txt_decode :: "string \<Rightarrow> string list option" where
  "txt_decode [] = Some []"
| "txt_decode (c # s) =
     (let n = of_char c
      in if n = 0 \<or> length s < n then None
         else map_option (\<lambda>rs. take n s # rs) (txt_decode (drop n s)))"
  by pat_completeness auto
termination
  by (relation "measure length") auto

declare txt_decode.simps(2) [simp del]

definition txt_strings_ok :: "string list \<Rightarrow> bool" where
  "txt_strings_ok rs \<longleftrightarrow> (\<forall>r \<in> set rs. 0 < length r \<and> length r < 256)"

lemma txt_decode_step:
  "0 < length r \<Longrightarrow> length r < 256 \<Longrightarrow>
     txt_decode (char_of (length r) # r @ s) = map_option (\<lambda>rs. r # rs) (txt_decode s)"
  by (subst txt_decode.simps) (simp add: Let_def of_char_of)

text \<open>Decoding the encoding of strings of 1 to 255 bytes gives the strings.\<close>

lemma txt_decodes: "txt_strings_ok rs \<Longrightarrow> txt_decode (txt_encode rs) = Some rs"
proof (induction rs)
  case Nil
  then show ?case by (simp add: txt_encode_def)
next
  case (Cons r rs)
  then show ?case
    using txt_decode_step [of r "txt_encode rs"] by (simp add: txt_encode_def txt_strings_ok_def)
qed

section \<open>Services\<close>

text \<open>\<open>hostname\<close> is \<open>CONFIG_NET_HOSTNAME\<close>.\<close>

record dns_sd_service =
  instance_name :: string
  service_type :: string
  domain_name :: string
  txt_record :: string
  port :: nat

definition dns_sd_services :: "app_config \<Rightarrow> string \<Rightarrow> dns_sd_service list" where
  "dns_sd_services c hostname =
     (if dns_sd_enable c \<and> tcp_nmea_server_enable c
      then [\<lparr>instance_name = hostname, service_type = ''_nmea-0183'', domain_name = ''local'',
             txt_record = nmea_txt, port = tcp_nmea_port c\<rparr>]
      else []) @
     (if dns_sd_enable c \<and> web_app_enable c
      then [\<lparr>instance_name = hostname, service_type = ''_http'', domain_name = ''local'',
             txt_record = http_txt, port = WEB_APP_HTTP_PORT\<rparr>]
      else [])"

definition nmea_strings :: "string list" where
  "nmea_strings = [''txtvers=1'', ''talkers=GP,AI'', ''content=gps,ais-rx'', ''source=maiana'', ''ro=1'']"

definition http_strings :: "string list" where
  "http_strings = [''txtvers=1'', ''path=/'']"

lemma txts_encode: "nmea_txt = txt_encode nmea_strings" "http_txt = txt_encode http_strings"
  by code_simp+

lemma strings_ok: "txt_strings_ok nmea_strings" "txt_strings_ok http_strings"
  by (simp_all add: txt_strings_ok_def nmea_strings_def http_strings_def)

text \<open>
  C34: What is advertised is there. With DNS-SD the device advertises the NMEA service exactly when
  the TCP server's thread would be created, with its port, and the web service exactly when the
  web server's thread would be; and every advertised TXT record is well-formed and says what the
  comments in the code say.
\<close>

theorem advertised_services_listen:
  "(\<exists>s \<in> set (dns_sd_services c hostname). service_type s = ''_nmea-0183'' \<and> port s = tcp_nmea_port c) =
     (dns_sd_enable c \<and> fst (snd (tcp_nmea_server_start c (server_storage c)))) \<and>
   (\<exists>s \<in> set (dns_sd_services c hostname). service_type s = ''_http'' \<and> port s = WEB_APP_HTTP_PORT) =
     (dns_sd_enable c \<and> fst (snd (web_app_start c web_storage))) \<and>
   (\<forall>s \<in> set (dns_sd_services c hostname).
      txt_decode (txt_record s) = Some (if service_type s = ''_http'' then http_strings else nmea_strings)) \<and>
   (kconfig_depends c \<longrightarrow> (dns_sd_services c hostname \<noteq> [] \<longleftrightarrow> dns_sd_enable c))"
  by (auto simp: kconfig_depends_def dns_sd_services_def tcp_nmea_server_start_def
      web_app_start_def server_storage_def web_storage_def txts_encode txt_decodes strings_ok)

text \<open>A device with DNS-SD and the two default listeners advertises both.\<close>

theorem advertised_services_listen_witness:
  "let c = default_config\<lparr>mdns_enable := True, dns_sd_enable := True\<rparr>;
       services = dns_sd_services c ''esp''
   in services \<noteq> [] \<and> (\<forall>s \<in> set services. txt_decode (txt_record s) \<noteq> None) \<and>
      (\<exists>s \<in> set services. service_type s = ''_http'' \<and> port s = WEB_APP_HTTP_PORT)"
proof -
  let ?c = "default_config\<lparr>mdns_enable := True, dns_sd_enable := True\<rparr>"
  have "fst (snd (web_app_start ?c web_storage))" and "kconfig_depends ?c"
    by (simp_all add: web_app_start_def web_storage_def default_config_def kconfig_depends_def)
  then show ?thesis
    using advertised_services_listen [of ?c "''esp''"] unfolding Let_def by simp
qed

end
