(* ===== verification/Startup.thy ===== *)
theory Startup
  imports Program Web Telemetry
begin

text \<open>
  \<open>src/main.c\<close>: the order in which \<open>main\<close> starts the components and what it does when one fails,
  and the thread that logs the counters. The other threads run while \<open>main\<close> goes on: a run of the
  device interleaves the steps of \<open>main\<close> with those of the program.
\<close>

section \<open>The device\<close>

text \<open>The first three threads are defined statically (\<open>K_THREAD_DEFINE\<close>).\<close>

datatype thread =
    Dispatcher_thread
  | Sta_retry_thread
  | Stats_thread
  | Led_thread
  | Uart_thread
  | Server_thread
  | Client_thread
  | Web_thread

definition static_threads :: "thread list" where
  "static_threads = [Dispatcher_thread, Sta_retry_thread, Stats_thread]"

text \<open>
  Where \<open>main\<close> stands. In \<open>Main_sleep\<close> it sleeps for five seconds, in \<open>Main_wifi_start\<close> it is
  inside \<open>wifi_manager_start\<close>.
\<close>

datatype main_pc =
    Main_bridge_init
  | Main_led_start
  | Main_uart_start
  | Main_sleep
  | Main_wifi_start
  | Main_server_start
  | Main_client_start
  | Main_web_start
  | Main_returned status

text \<open>What \<open>main\<close> logs when a start function fails.\<close>

datatype boot_log =
    Uart_failed errno
  | Wifi_warning errno
  | Server_warning errno
  | Client_warning errno
  | Web_warning errno

text \<open>\<open>dev_calls\<close> are the calls into Zephyr's network management so far.\<close>

record 'q device =
  dev_program :: "'q program"
  dev_web :: web_app
  dev_main :: main_pc
  dev_threads :: "thread list"
  dev_calls :: "net_call list"
  dev_log :: "boot_log list"

text \<open>Before \<open>main\<close>: the program as linked, with the bridge as \<open>nmea_bridge_init\<close> finds it.\<close>

definition device_start :: "app_config \<Rightarrow> 'q msgq_ops \<Rightarrow> 'q \<Rightarrow> u8 list \<Rightarrow> 'q device" where
  "device_start c Q q0 garbage =
     (let p = program_start c Q q0 garbage wifi_storage;
          n = prog_net p
      in \<lparr>dev_program = p\<lparr>prog_net := n\<lparr>net_env := (net_env n)\<lparr>env_bridge := bridge_storage c Q q0\<rparr>\<rparr>\<rparr>,
          dev_web = web_storage, dev_main = Main_bridge_init, dev_threads = static_threads,
          dev_calls = [], dev_log = []\<rparr>)"

text \<open>What drivers and network answer to the start functions: see the functions themselves.\<close>

record boot_answers =
  boot_has_strip :: bool
  boot_strip_ready :: bool
  boot_uart_ready :: bool
  boot_wifi :: wifi_answers

section \<open>The steps of main\<close>

definition new_thread :: "thread \<Rightarrow> bool \<Rightarrow> thread list" where
  "new_thread t created = (if created then [t] else [])"

definition warning :: "(errno \<Rightarrow> boot_log) \<Rightarrow> status \<Rightarrow> boot_log list" where
  "warning f ret = (case ret of Inl e \<Rightarrow> [f e] | Inr _ \<Rightarrow> [])"

text \<open>The calls into Zephyr's network management that an event of the program makes.\<close>

definition program_calls :: "app_config \<Rightarrow> program_event \<Rightarrow> 'q program \<Rightarrow> net_call list" where
  "program_calls c ev p =
     (case ev of Ev_wifi e \<Rightarrow> snd (wifi_run_step c e (prog_wifi p, prog_threads p)) | _ \<Rightarrow> [])"

definition run_program :: "app_config \<Rightarrow> 'q msgq_ops \<Rightarrow> program_event \<Rightarrow> 'q device \<Rightarrow> 'q device" where
  "run_program c Q ev d =
     d\<lparr>dev_program := program_step c Q ev (dev_program d),
       dev_calls := dev_calls d @ program_calls c ev (dev_program d)\<rparr>"

text \<open>
  One step of \<open>main\<close> at time \<open>now\<close>. The result of \<open>status_led_start\<close> is ignored; only the failure
  of \<open>uart_nmea_start\<close> ends \<open>main\<close>.
\<close>

definition main_step ::
    "app_config \<Rightarrow> 'q msgq_ops \<Rightarrow> boot_answers \<Rightarrow> int \<Rightarrow> 'q device \<Rightarrow> 'q device" where
  "main_step c Q a now d =
     (let p = dev_program d;
          n = prog_net p
      in case dev_main d of
        Main_bridge_init \<Rightarrow>
          d\<lparr>dev_program := p\<lparr>prog_net := n\<lparr>net_env := (net_env n)
               \<lparr>env_bridge := nmea_bridge_init c Q (env_bridge (net_env n))\<rparr>\<rparr>\<rparr>,
            dev_main := Main_led_start\<rparr>
      | Main_led_start \<Rightarrow>
          (case status_led_start c (boot_has_strip a) (boot_strip_ready a) now (env_led (net_env n)) of
             (_, created, _) \<Rightarrow>
               (run_program c Q (Ev_led_start (boot_has_strip a) (boot_strip_ready a) now) d)
                 \<lparr>dev_threads := dev_threads d @ new_thread Led_thread created,
                  dev_main := Main_uart_start\<rparr>)
      | Main_uart_start \<Rightarrow>
          (case uart_nmea_start (boot_uart_ready a) (net_uart n) of
             (ret, created, _) \<Rightarrow>
               (run_program c Q (Ev_uart_start (boot_uart_ready a)) d)
                 \<lparr>dev_threads := dev_threads d @ new_thread Uart_thread created,
                  dev_log := dev_log d @ warning Uart_failed ret,
                  dev_main := (if ret \<noteq> success then Main_returned ret else Main_sleep)\<rparr>)
      | Main_sleep \<Rightarrow> d\<lparr>dev_main := Main_wifi_start\<rparr>
      | Main_wifi_start \<Rightarrow>
          (case start_thread (prog_threads p) of
             Start_returned ret \<Rightarrow>
               d\<lparr>dev_log := dev_log d @ warning Wifi_warning ret, dev_main := Main_server_start\<rparr>
           | _ \<Rightarrow> run_program c Q (Ev_wifi (Start_turn (boot_wifi a))) d)
      | Main_server_start \<Rightarrow>
          (case tcp_nmea_server_start c (prog_server p) of
             (ret, created, _) \<Rightarrow>
               (run_program c Q Ev_server_start d)
                 \<lparr>dev_threads := dev_threads d @ new_thread Server_thread created,
                  dev_log := dev_log d @ warning Server_warning ret,
                  dev_main := Main_client_start\<rparr>)
      | Main_client_start \<Rightarrow>
          (case tcp_nmea_client_start c (prog_client p) of
             (ret, created, _) \<Rightarrow>
               (run_program c Q Ev_client_start d)
                 \<lparr>dev_threads := dev_threads d @ new_thread Client_thread created,
                  dev_log := dev_log d @ warning Client_warning ret,
                  dev_main := Main_web_start\<rparr>)
      | Main_web_start \<Rightarrow>
          (case web_app_start c (dev_web d) of
             (ret, created, web) \<Rightarrow>
               d\<lparr>dev_web := web, dev_threads := dev_threads d @ new_thread Web_thread created,
                 dev_log := dev_log d @ warning Web_warning ret,
                 dev_main := Main_returned success\<rparr>)
      | Main_returned ret \<Rightarrow> d)"

section \<open>Runs of the device\<close>

text \<open>
  When a thread can take a step: it must have been created, and callbacks must have been
  registered. The start functions are called by \<open>main\<close> only. \<open>main\<close> has the highest priority of
  all threads of the program, so that none of them runs before \<open>nmea_bridge_init\<close> has returned.
\<close>

definition wifi_can_run :: "thread set \<Rightarrow> wifi_threads \<Rightarrow> wifi_run_event \<Rightarrow> bool" where
  "wifi_can_run threads ts e \<longleftrightarrow>
     (case e of
        Mgmt_event _ _ \<Rightarrow> start_thread ts \<noteq> Start_ifaces
      | Mgmt_turn _ \<Rightarrow> start_thread ts \<noteq> Start_ifaces
      | Ask \<Rightarrow> Web_thread \<in> threads
      | Ask_turn _ \<Rightarrow> Web_thread \<in> threads
      | Retry_turn _ \<Rightarrow> Sta_retry_thread \<in> threads
      | Start_turn _ \<Rightarrow> False)"

definition can_run :: "thread set \<Rightarrow> wifi_threads \<Rightarrow> program_event \<Rightarrow> bool" where
  "can_run threads ts ev \<longleftrightarrow>
     (case ev of
        Ev_uart _ \<Rightarrow> Uart_thread \<in> threads
      | Ev_dispatch \<Rightarrow> Dispatcher_thread \<in> threads
      | Ev_server _ _ \<Rightarrow> Server_thread \<in> threads
      | Ev_slot _ _ _ \<Rightarrow> Server_thread \<in> threads
      | Ev_client _ _ _ _ \<Rightarrow> Client_thread \<in> threads
      | Ev_wifi e \<Rightarrow> wifi_can_run threads ts e
      | _ \<Rightarrow> False)"

datatype device_event = Main_turn int | Program_turn program_event

fun device_step ::
    "app_config \<Rightarrow> 'q msgq_ops \<Rightarrow> boot_answers \<Rightarrow> device_event \<Rightarrow> 'q device \<Rightarrow> 'q device" where
  "device_step c Q a (Main_turn now) d = main_step c Q a now d"
| "device_step c Q a (Program_turn ev) d =
     (if dev_main d \<noteq> Main_bridge_init \<and>
         can_run (set (dev_threads d)) (prog_threads (dev_program d)) ev
      then run_program c Q ev d else d)"

definition device_run ::
    "app_config \<Rightarrow> 'q msgq_ops \<Rightarrow> boot_answers \<Rightarrow> 'q \<Rightarrow> u8 list \<Rightarrow> device_event list \<Rightarrow> 'q device" where
  "device_run c Q a q0 garbage es = fold (device_step c Q a) es (device_start c Q q0 garbage)"

section \<open>The statistics thread\<close>

text \<open>One round of \<open>stats_thread\<close>: the nine numbers it logs. It sleeps 30 s between rounds.\<close>

definition stats_round :: "uart_nmea_stats \<Rightarrow> nmea_bridge_stats \<Rightarrow> uart_nmea \<Rightarrow> 'q bridge \<Rightarrow> u32 list" where
  "stats_round us0 bs0 u b =
     (let us = the (uart_nmea_get_stats u (Some us0));
          bs = the (nmea_bridge_get_stats b (Some bs0))
      in [bytes_rx us, lines_rx us, overlong_lines us, frames_in bs, ingest_dropped_oldest bs,
          sink_dropped_oldest bs, publish_no_sinks bs, publish_invalid bs, publish_oversize bs])"

end
