(* ===== verification/Startup_Facts.thy ===== *)
theory Startup_Facts
  imports Startup Program_Threads
begin

text \<open>
  What holds of the device while \<open>main\<close> starts it and afterwards: every state is one of a run of the
  program, which threads exist, and what stays untouched when there is no serial port.
\<close>

section \<open>The device runs the program\<close>

text \<open>The events of the program that an event of the device performs.\<close>

definition main_performs :: "boot_answers \<Rightarrow> int \<Rightarrow> 'q device \<Rightarrow> program_event list" where
  "main_performs a now d =
     (case dev_main d of
        Main_led_start \<Rightarrow> [Ev_led_start (boot_has_strip a) (boot_strip_ready a) now]
      | Main_uart_start \<Rightarrow> [Ev_uart_start (boot_uart_ready a)]
      | Main_wifi_start \<Rightarrow>
          (case start_thread (prog_threads (dev_program d)) of
             Start_returned _ \<Rightarrow> [] | _ \<Rightarrow> [Ev_wifi (Start_turn (boot_wifi a))])
      | Main_server_start \<Rightarrow> [Ev_server_start]
      | Main_client_start \<Rightarrow> [Ev_client_start]
      | _ \<Rightarrow> [])"

fun performs :: "boot_answers \<Rightarrow> device_event \<Rightarrow> 'q device \<Rightarrow> program_event list" where
  "performs a (Main_turn now) d = main_performs a now d"
| "performs a (Program_turn ev) d =
     (if dev_main d \<noteq> Main_bridge_init \<and>
         can_run (set (dev_threads d)) (prog_threads (dev_program d)) ev
      then [ev] else [])"

fun device_trace ::
    "app_config \<Rightarrow> 'q msgq_ops \<Rightarrow> boot_answers \<Rightarrow> device_event list \<Rightarrow> 'q device \<Rightarrow> program_event list" where
  "device_trace c Q a [] d = []"
| "device_trace c Q a (ev # es) d = performs a ev d @ device_trace c Q a es (device_step c Q a ev d)"

lemma run_program_fields [simp]:
  "dev_program (run_program c Q ev d) = program_step c Q ev (dev_program d)"
  "dev_web (run_program c Q ev d) = dev_web d"
  "dev_main (run_program c Q ev d) = dev_main d"
  "dev_threads (run_program c Q ev d) = dev_threads d"
  "dev_calls (run_program c Q ev d) = dev_calls d @ program_calls c ev (dev_program d)"
  by (simp_all add: run_program_def)

lemma main_step_program:
  "dev_main d \<noteq> Main_bridge_init \<Longrightarrow>
     dev_program (main_step c Q a now d) = fold (program_step c Q) (main_performs a now d) (dev_program d)"
  by (cases "dev_main d") (auto simp: main_step_def main_performs_def Let_def split_beta
      split: wifi_start_pc.split)

lemma device_step_program:
  "dev_main d \<noteq> Main_bridge_init \<Longrightarrow>
     dev_program (device_step c Q a ev d) = fold (program_step c Q) (performs a ev d) (dev_program d)"
  by (cases ev) (simp_all add: main_step_program)

lemma main_step_past_init: "dev_main (main_step c Q a now d) \<noteq> Main_bridge_init"
  by (auto simp: main_step_def Let_def split_beta split: main_pc.split wifi_start_pc.split)

lemma device_step_past_init:
  "dev_main d \<noteq> Main_bridge_init \<Longrightarrow> dev_main (device_step c Q a ev d) \<noteq> Main_bridge_init"
  by (cases ev) (simp_all add: main_step_past_init)

lemma device_trace_program:
  "dev_main d \<noteq> Main_bridge_init \<Longrightarrow>
     dev_program (fold (device_step c Q a) es d) =
       fold (program_step c Q) (device_trace c Q a es d) (dev_program d)"
  by (induction es arbitrary: d) (simp_all add: device_step_program device_step_past_init
      del: device_step.simps performs.simps)

lemma init_gives_start:
  "dev_program (main_step c Q a now (device_start c Q q0 g)) = program_start c Q q0 g wifi_storage"
  by (simp add: main_step_def device_start_def Let_def program_start_def net_start_def)

lemma device_run_snoc: "device_run c Q a q0 g (es @ [ev]) = device_step c Q a ev (device_run c Q a q0 g es)"
  by (simp add: device_run_def)

lemma still_at_init:
  "dev_main (device_run c Q a q0 g es) = Main_bridge_init \<Longrightarrow>
     device_run c Q a q0 g es = device_start c Q q0 g"
proof (induction es rule: rev_induct)
  case Nil
  then show ?case by (simp add: device_run_def)
next
  case (snoc ev es)
  then have "dev_main (device_run c Q a q0 g es) = Main_bridge_init"
    using device_step_past_init unfolding device_run_snoc by metis
  then show ?case using snoc unfolding device_run_snoc
    by (cases ev) (simp_all add: main_step_past_init)
qed

text \<open>
  From the first step of \<open>main\<close> on the device is a run of the program from its start: what is shown
  of every run of the program holds of the device, while \<open>main\<close> starts it and afterwards.
\<close>

lemma device_run_program:
  "dev_main (device_run c Q a q0 g es) \<noteq> Main_bridge_init \<Longrightarrow>
     \<exists>evs. dev_program (device_run c Q a q0 g es) = program_run c Q q0 g wifi_storage evs"
proof (induction es rule: rev_induct)
  case Nil
  then show ?case by (simp add: device_run_def device_start_def Let_def)
next
  case (snoc ev es)
  let ?d = "device_run c Q a q0 g es"
  show ?case
  proof (cases "dev_main ?d = Main_bridge_init")
    case False
    then obtain evs where "dev_program ?d = program_run c Q q0 g wifi_storage evs" using snoc.IH by blast
    then have "dev_program (device_step c Q a ev ?d) =
        program_run c Q q0 g wifi_storage (evs @ performs a ev ?d)"
      using device_step_program [OF False, of c Q a ev] by (simp add: program_run_def)
    then show ?thesis unfolding device_run_snoc by blast
  next
    case True
    then obtain now where "ev = Main_turn now"
      using snoc.prems unfolding device_run_snoc by (cases ev) simp_all
    then have "dev_program (device_run c Q a q0 g (es @ [ev])) = program_run c Q q0 g wifi_storage []"
      unfolding device_run_snoc still_at_init [OF True]
      by (simp add: init_gives_start program_run_def)
    then show ?thesis by blast
  qed
qed

section \<open>What exists when\<close>

text \<open>How far \<open>main\<close> has come, and the threads that exist then.\<close>

fun main_rank :: "main_pc \<Rightarrow> nat" where
  "main_rank Main_bridge_init = 0"
| "main_rank Main_led_start = 1"
| "main_rank Main_uart_start = 2"
| "main_rank Main_sleep = 3"
| "main_rank Main_wifi_start = 4"
| "main_rank Main_server_start = 5"
| "main_rank Main_client_start = 6"
| "main_rank Main_web_start = 7"
| "main_rank (Main_returned _) = 8"

text \<open>What a thread needs to exist once \<open>main\<close> has returned.\<close>

fun thread_wanted :: "app_config \<Rightarrow> boot_answers \<Rightarrow> thread \<Rightarrow> bool" where
  "thread_wanted c a Led_thread \<longleftrightarrow> status_led_enable c \<and> boot_has_strip a \<and> boot_strip_ready a"
| "thread_wanted c a Uart_thread \<longleftrightarrow> boot_uart_ready a"
| "thread_wanted c a Server_thread \<longleftrightarrow> boot_uart_ready a \<and> tcp_nmea_server_enable c"
| "thread_wanted c a Client_thread \<longleftrightarrow> boot_uart_ready a \<and> tcp_nmea_client_enable c"
| "thread_wanted c a Web_thread \<longleftrightarrow> boot_uart_ready a \<and> web_app_enable c"
| "thread_wanted c a _ \<longleftrightarrow> True"

fun thread_step :: "thread \<Rightarrow> nat" where
  "thread_step Led_thread = 2"
| "thread_step Uart_thread = 3"
| "thread_step Server_thread = 6"
| "thread_step Client_thread = 7"
| "thread_step Web_thread = 8"
| "thread_step _ = 0"

definition threads_exist :: "app_config \<Rightarrow> boot_answers \<Rightarrow> 'q device \<Rightarrow> bool" where
  "threads_exist c a d \<longleftrightarrow>
     (\<forall>t. t \<in> set (dev_threads d) \<longleftrightarrow> thread_wanted c a t \<and> thread_step t \<le> main_rank (dev_main d))"

text \<open>What no thread touches before it exists.\<close>

definition untouched :: "app_config \<Rightarrow> 'q device \<Rightarrow> bool" where
  "untouched c d \<longleftrightarrow>
     (Server_thread \<notin> set (dev_threads d) \<longrightarrow> prog_server (dev_program d) = server_storage c) \<and>
     (Client_thread \<notin> set (dev_threads d) \<longrightarrow> prog_client (dev_program d) = client_storage) \<and>
     (Web_thread \<notin> set (dev_threads d) \<longrightarrow> dev_web d = web_storage) \<and>
     (main_rank (dev_main d) \<le> 1 \<longrightarrow>
        \<not> status_led_running (env_led (net_env (prog_net (dev_program d))))) \<and>
     (main_rank (dev_main d) \<le> 2 \<longrightarrow> \<not> uart_started (net_uart (prog_net (dev_program d))))"

definition network_quiet :: "'q device \<Rightarrow> bool" where
  "network_quiet d \<longleftrightarrow>
     dev_calls d = [] \<and> prog_wifi (dev_program d) = wifi_storage \<and>
     start_thread (prog_threads (dev_program d)) = Start_ifaces \<and>
     handler_thread (prog_threads (dev_program d)) = Handler_idle \<and>
     retry_thread (prog_threads (dev_program d)) \<in> {Retry_start, Retry_wait_enabled, Retry_ended}"

definition boot_inv :: "app_config \<Rightarrow> boot_answers \<Rightarrow> 'q device \<Rightarrow> bool" where
  "boot_inv c a d \<longleftrightarrow> threads_exist c a d \<and> untouched c d \<and>
     (\<forall>ret. dev_main d = Main_returned ret \<longrightarrow>
        ret = (if boot_uart_ready a then success else failure ENODEV)) \<and>
     (\<not> boot_uart_ready a \<longrightarrow> main_rank (dev_main d) \<le> 2 \<or> main_rank (dev_main d) = 8) \<and>
     (main_rank (dev_main d) < 4 \<or> \<not> boot_uart_ready a \<longrightarrow> network_quiet d)"

lemma thread_in_cases: "(\<forall>t. P t) \<longleftrightarrow> P Dispatcher_thread \<and> P Sta_retry_thread \<and> P Stats_thread \<and>
    P Led_thread \<and> P Uart_thread \<and> P Server_thread \<and> P Client_thread \<and> P Web_thread"
  by (metis thread.exhaust)

lemma boot_start_inv: "boot_inv c a (device_start c Q q0 g)"
  by (simp add: boot_inv_def threads_exist_def thread_in_cases untouched_def network_quiet_def
      device_start_def Let_def static_threads_def program_start_def net_start_def wifi_threads_start_def
      status_led_storage_def uart_storage_def)

text \<open>Steps of the program keep it.\<close>

lemma quiet_retry:
  assumes "pc \<in> {Retry_start, Retry_wait_enabled, Retry_ended}" and "\<not> sta_retry_enabled w"
  shows "\<exists>pc' ms. retry_step c net pc w = (pc', w, ms, []) \<and>
    pc' \<in> {Retry_start, Retry_wait_enabled, Retry_ended}"
  using assms by (auto simp: retry_step_def)

lemma program_quiet:
  assumes "network_quiet d" and "can_run T (prog_threads (dev_program d)) ev"
    and "Client_thread \<notin> T" and "Web_thread \<notin> T"
  shows "network_quiet (run_program c Q ev d)"
proof (cases ev)
  case (Ev_wifi e)
  show ?thesis
  proof (cases e)
    case (Retry_turn net)
    have "\<not> sta_retry_enabled (prog_wifi (dev_program d))"
      using assms(1) by (simp add: network_quiet_def wifi_storage_def)
    from quiet_retry [OF _ this, of "retry_thread (prog_threads (dev_program d))" c net] show ?thesis
      using assms(1) Ev_wifi Retry_turn
      by (auto simp: network_quiet_def program_step_def program_calls_def)
  qed (use assms Ev_wifi in \<open>simp_all add: can_run_def wifi_can_run_def network_quiet_def\<close>)
qed (use assms in \<open>auto simp: network_quiet_def program_calls_def program_step_def can_run_def
    split_beta Let_def\<close>)

lemma program_untouched:
  assumes "untouched c d" and "can_run (set (dev_threads d)) (prog_threads (dev_program d)) ev"
    and "main_rank (dev_main d) \<le> 2 \<Longrightarrow>
      set (dev_threads d) \<inter> {Uart_thread, Server_thread, Client_thread, Web_thread} = {}"
  shows "untouched c (run_program c Q ev d)"
proof -
  let ?p = "dev_program d" and ?q = "program_step c Q ev (dev_program d)"
  have "Server_thread \<notin> set (dev_threads d) \<Longrightarrow> prog_server ?q = prog_server ?p"
    and "Client_thread \<notin> set (dev_threads d) \<Longrightarrow> prog_client ?q = prog_client ?p"
    using assms(2) by (cases ev; auto simp: can_run_def program_step_def split_beta Let_def)+
  moreover have "env_led (net_env (prog_net ?q)) = env_led (net_env (prog_net ?p)) \<and>
      net_uart (prog_net ?q) = net_uart (prog_net ?p)" if "main_rank (dev_main d) \<le> 2"
    using assms(2) assms(3) [OF that]
    by (cases ev) (auto simp: can_run_def program_step_def split_beta Let_def split: option.split)
  ultimately show ?thesis using assms(1) by (simp add: untouched_def)
qed

lemma program_turn_inv:
  assumes "boot_inv c a d"
  shows "boot_inv c a (device_step c Q a (Program_turn ev) d)"
proof (cases "dev_main d \<noteq> Main_bridge_init \<and>
    can_run (set (dev_threads d)) (prog_threads (dev_program d)) ev")
  case False
  then show ?thesis using assms by auto
next
  case True
  have exist: "threads_exist c a d" using assms by (simp add: boot_inv_def)
  have few: "set (dev_threads d) \<inter> {Uart_thread, Server_thread, Client_thread, Web_thread} = {}"
    if "main_rank (dev_main d) \<le> 2"
    using exist that by (auto simp: threads_exist_def)
  have "untouched c (run_program c Q ev d)"
    using program_untouched [of c d ev Q] few True assms by (simp add: boot_inv_def)
  moreover have "network_quiet (run_program c Q ev d)"
    if "main_rank (dev_main d) < 4 \<or> \<not> boot_uart_ready a"
    using program_quiet [of d "set (dev_threads d)" ev c Q] exist that True assms
    by (auto simp: boot_inv_def threads_exist_def)
  ultimately show ?thesis using assms True by (simp add: boot_inv_def threads_exist_def)
qed

text \<open>So do those of \<open>main\<close>.\<close>

lemma main_step_web:
  "dev_web d = web_storage \<Longrightarrow> web_app_start c (dev_web d) =
     (success, web_app_enable c, if web_app_enable c
        then web_storage\<lparr>web_started := True, web_thread := Web_setup\<rparr> else web_storage)"
  by (simp add: web_app_start_def web_storage_def)

lemma boot_invD:
  assumes "boot_inv c a d"
  shows "untouched c d" and "t \<in> set (dev_threads d) \<longleftrightarrow> thread_wanted c a t \<and> thread_step t \<le> main_rank (dev_main d)"
    and "3 \<le> main_rank (dev_main d) \<Longrightarrow> main_rank (dev_main d) < 8 \<Longrightarrow> boot_uart_ready a"
    and "main_rank (dev_main d) < 4 \<Longrightarrow> network_quiet d"
  using assms by (auto simp: boot_inv_def threads_exist_def)

text \<open>A step that creates the thread \<open>t\<close> if it is wanted, and one that creates none.\<close>

lemma threads_exist_step:
  assumes "threads_exist c a d" and "main_rank (dev_main d') = Suc (main_rank (dev_main d))"
    and "set (dev_threads d') = set (dev_threads d) \<union>
      {t. thread_wanted c a t \<and> thread_step t = main_rank (dev_main d')}"
  shows "threads_exist c a d'"
  using assms by (auto simp: threads_exist_def le_Suc_eq)

lemma step_threads:
  "{t. thread_wanted c a t \<and> thread_step t = Suc 0} = {}"
  "{t. thread_wanted c a t \<and> thread_step t = 2} = (if thread_wanted c a Led_thread then {Led_thread} else {})"
  "{t. thread_wanted c a t \<and> thread_step t = 3} = (if thread_wanted c a Uart_thread then {Uart_thread} else {})"
  "{t. thread_wanted c a t \<and> thread_step t = 4} = {}"
  "{t. thread_wanted c a t \<and> thread_step t = 5} = {}"
  "{t. thread_wanted c a t \<and> thread_step t = 6} = (if thread_wanted c a Server_thread then {Server_thread} else {})"
  "{t. thread_wanted c a t \<and> thread_step t = 7} = (if thread_wanted c a Client_thread then {Client_thread} else {})"
  "{t. thread_wanted c a t \<and> thread_step t = 8} = (if thread_wanted c a Web_thread then {Web_thread} else {})"
  by (auto elim: thread_step.elims)

lemma wifi_step_fields:
  "prog_server (program_step c Q (Ev_wifi e) p) = prog_server p"
  "prog_client (program_step c Q (Ev_wifi e) p) = prog_client p"
  "prog_net (program_step c Q (Ev_wifi e) p) = prog_net p"
  by (simp_all add: program_step_def split_beta)

lemma turn_init:
  assumes "boot_inv c a d" and "dev_main d = Main_bridge_init"
  shows "boot_inv c a (main_step c Q a now d)"
proof -
  let ?d = "main_step c Q a now d"
  have "threads_exist c a ?d"
    by (rule threads_exist_step [where d = d]) (use assms in \<open>simp_all add: boot_inv_def main_step_def Let_def step_threads\<close>)
  moreover have "untouched c ?d" "network_quiet ?d"
    using assms by (simp_all add: boot_inv_def untouched_def network_quiet_def main_step_def Let_def)
  ultimately show ?thesis using assms by (simp add: boot_inv_def main_step_def Let_def)
qed

lemma turn_led:
  assumes "boot_inv c a d" and "dev_main d = Main_led_start"
  shows "boot_inv c a (main_step c Q a now d)"
proof -
  let ?d = "main_step c Q a now d"
  have idle: "\<not> status_led_running (env_led (net_env (prog_net (dev_program d))))"
    using assms by (simp add: boot_inv_def untouched_def)
  have "threads_exist c a ?d"
    by (rule threads_exist_step [where d = d]) (use assms idle in \<open>auto simp: boot_inv_def main_step_def Let_def
        step_threads status_led_start_def new_thread_def\<close>)
  moreover have "untouched c ?d"
    using boot_invD(1) [OF assms(1)] boot_invD(2) [OF assms(1)] assms(2)
    by (auto simp: untouched_def main_step_def Let_def program_step_def split_beta)
  moreover have "network_quiet ?d"
    using boot_invD(4) [OF assms(1)] assms(2)
    by (auto simp: network_quiet_def main_step_def Let_def program_step_def program_calls_def split_beta)
  ultimately show ?thesis using assms by (simp add: boot_inv_def main_step_def Let_def split_beta)
qed

lemma turn_uart:
  assumes "boot_inv c a d" and "dev_main d = Main_uart_start"
  shows "boot_inv c a (main_step c Q a now d)"
proof -
  let ?d = "main_step c Q a now d"
  have idle: "\<not> uart_started (net_uart (prog_net (dev_program d)))"
    using assms by (simp add: boot_inv_def untouched_def)
  have un: "untouched c ?d"
    using boot_invD(1) [OF assms(1)] boot_invD(2) [OF assms(1)] assms(2) idle
    by (auto simp: untouched_def main_step_def Let_def program_step_def split_beta uart_nmea_start_def)
  have quiet: "network_quiet ?d"
    using boot_invD(4) [OF assms(1)] assms(2)
    by (auto simp: network_quiet_def main_step_def Let_def program_step_def program_calls_def split_beta)
  show ?thesis
  proof (cases "boot_uart_ready a")
    case True
    have "threads_exist c a ?d"
      by (rule threads_exist_step [where d = d]) (use assms idle True in \<open>auto simp: boot_inv_def main_step_def Let_def
          step_threads uart_nmea_start_def new_thread_def\<close>)
    then show ?thesis using un quiet assms idle True
      by (simp add: boot_inv_def main_step_def Let_def uart_nmea_start_def)
  next
    case False
    then have main: "dev_main ?d = Main_returned (failure ENODEV)" "dev_threads ?d = dev_threads d"
      using assms(2) by (simp_all add: main_step_def Let_def uart_nmea_start_def new_thread_def)
    have "threads_exist c a ?d"
      using boot_invD(2) [OF assms(1)] False assms(2)
      unfolding threads_exist_def main thread_in_cases by simp
    then show ?thesis using un quiet main False by (simp add: boot_inv_def)
  qed
qed

lemma turn_sleep:
  assumes "boot_inv c a d" and "dev_main d = Main_sleep"
  shows "boot_inv c a (main_step c Q a now d)"
proof -
  let ?d = "main_step c Q a now d"
  have "threads_exist c a ?d"
    by (rule threads_exist_step [where d = d]) (use assms in \<open>simp_all add: boot_inv_def main_step_def Let_def step_threads\<close>)
  then show ?thesis using assms boot_invD(3) [OF assms(1)]
    by (simp add: boot_inv_def untouched_def main_step_def Let_def)
qed

lemma turn_wifi:
  assumes "boot_inv c a d" and "dev_main d = Main_wifi_start"
  shows "boot_inv c a (main_step c Q a now d)"
proof -
  let ?pc = "start_thread (prog_threads (dev_program d))" and ?d = "main_step c Q a now d"
  have ready: "boot_uart_ready a" using boot_invD(3) [OF assms(1)] assms(2) by simp
  show ?thesis
  proof (cases "\<exists>ret. ?pc = Start_returned ret")
    case True
    then have main: "dev_main ?d = Main_server_start" "dev_threads ?d = dev_threads d"
        "dev_program ?d = dev_program d" "dev_web ?d = dev_web d"
      using assms(2) by (auto simp: main_step_def Let_def)
    have "threads_exist c a ?d"
      by (rule threads_exist_step [where d = d]) (use assms main in \<open>simp_all add: boot_inv_def step_threads\<close>)
    then show ?thesis using ready assms main by (simp add: boot_inv_def untouched_def)
  next
    case False
    then have "?d = run_program c Q (Ev_wifi (Start_turn (boot_wifi a))) d"
      using assms(2) by (simp add: main_step_def Let_def split: wifi_start_pc.split)
    then show ?thesis using ready assms
      by (simp add: boot_inv_def untouched_def threads_exist_def wifi_step_fields)
  qed
qed

lemma turn_server:
  assumes "boot_inv c a d" and "dev_main d = Main_server_start"
  shows "boot_inv c a (main_step c Q a now d)"
proof -
  let ?d = "main_step c Q a now d"
  have ready: "boot_uart_ready a" using boot_invD(3) [OF assms(1)] assms(2) by simp
  have server: "prog_server (dev_program d) = server_storage c"
    using boot_invD(1) [OF assms(1)] boot_invD(2) [OF assms(1), of Server_thread] assms(2)
    by (simp add: untouched_def)
  have "threads_exist c a ?d"
    by (rule threads_exist_step [where d = d]) (use assms server ready in \<open>auto simp: boot_inv_def main_step_def Let_def
        step_threads tcp_nmea_server_start_def server_storage_def new_thread_def\<close>)
  moreover have "untouched c ?d"
    using boot_invD(1) [OF assms(1)] assms(2) server
    by (auto simp: untouched_def main_step_def Let_def program_step_def tcp_nmea_server_start_def
        server_storage_def new_thread_def)
  ultimately show ?thesis using assms ready by (simp add: boot_inv_def main_step_def Let_def split_beta)
qed

lemma turn_client:
  assumes "boot_inv c a d" and "dev_main d = Main_client_start"
  shows "boot_inv c a (main_step c Q a now d)"
proof -
  let ?d = "main_step c Q a now d"
  have ready: "boot_uart_ready a" using boot_invD(3) [OF assms(1)] assms(2) by simp
  have client: "prog_client (dev_program d) = client_storage"
    using boot_invD(1) [OF assms(1)] boot_invD(2) [OF assms(1), of Client_thread] assms(2)
    by (simp add: untouched_def)
  have "threads_exist c a ?d"
    by (rule threads_exist_step [where d = d]) (use assms client ready in \<open>auto simp: boot_inv_def main_step_def Let_def
        step_threads tcp_nmea_client_start_def client_storage_def new_thread_def\<close>)
  moreover have "untouched c ?d"
    using boot_invD(1) [OF assms(1)] assms(2) client
    by (auto simp: untouched_def main_step_def Let_def program_step_def tcp_nmea_client_start_def
        client_storage_def new_thread_def)
  ultimately show ?thesis using assms ready by (simp add: boot_inv_def main_step_def Let_def split_beta)
qed

lemma turn_web:
  assumes "boot_inv c a d" and "dev_main d = Main_web_start"
  shows "boot_inv c a (main_step c Q a now d)"
proof -
  let ?d = "main_step c Q a now d"
  have ready: "boot_uart_ready a" using boot_invD(3) [OF assms(1)] assms(2) by simp
  have web: "web_app_start c (dev_web d) = (success, web_app_enable c, if web_app_enable c
      then web_storage\<lparr>web_started := True, web_thread := Web_setup\<rparr> else web_storage)"
    using boot_invD(1) [OF assms(1)] boot_invD(2) [OF assms(1), of Web_thread] assms(2)
    by (intro main_step_web) (simp add: untouched_def)
  have "threads_exist c a ?d"
    by (rule threads_exist_step [where d = d]) (use assms web ready in \<open>auto simp: boot_inv_def
        main_step_def Let_def step_threads new_thread_def\<close>)
  moreover have "untouched c ?d"
    using boot_invD(1) [OF assms(1)] assms(2) web
    by (auto simp: untouched_def main_step_def Let_def new_thread_def)
  ultimately show ?thesis using assms ready by (simp add: boot_inv_def main_step_def Let_def split_beta)
qed

lemma turn_returned:
  "boot_inv c a d \<Longrightarrow> dev_main d = Main_returned ret \<Longrightarrow> boot_inv c a (main_step c Q a now d)"
  by (simp add: main_step_def Let_def)

lemma main_turn_inv: "boot_inv c a d \<Longrightarrow> boot_inv c a (main_step c Q a now d)"
  by (cases "dev_main d") (simp_all only: turn_init turn_led turn_uart turn_sleep turn_wifi turn_server
      turn_client turn_web turn_returned)

lemma device_step_inv: "boot_inv c a d \<Longrightarrow> boot_inv c a (device_step c Q a e d)"
  by (cases e) (simp_all only: device_step.simps(1) main_turn_inv program_turn_inv)

interpretation boot_machine: invariant_machine "device_step c Q a" "boot_inv c a" for c Q a
  by unfold_locales (rule device_step_inv)

lemma device_boot_inv: "boot_inv c a (device_run c Q a q0 g es)"
  unfolding device_run_def by (rule boot_machine.run_inv [OF boot_start_inv])

section \<open>main returns\<close>

fun start_left :: "wifi_start_pc \<Rightarrow> nat" where
  "start_left Start_ifaces = 8"
| "start_left Start_mac = 7"
| "start_left Start_ap = 6"
| "start_left (Start_disconnect _) = 5"
| "start_left (Start_connect _) = 4"
| "start_left (Start_connected _ _) = 3"
| "start_left (Start_enable_retry _) = 2"
| "start_left (Start_returned _) = 1"

text \<open>The steps \<open>main\<close> has left, at most.\<close>

definition main_left :: "'q device \<Rightarrow> nat" where
  "main_left d =
     (case dev_main d of
        Main_wifi_start \<Rightarrow> 3 + start_left (start_thread (prog_threads (dev_program d)))
      | Main_returned _ \<Rightarrow> 0
      | pc \<Rightarrow> if main_rank pc < 4 then 15 - main_rank pc else 8 - main_rank pc)"

lemma start_left_le: "1 \<le> start_left pc" "start_left pc \<le> 8"
  by (cases pc; simp)+

lemma main_step_left: "main_left (main_step c Q a now d) \<le> main_left d - 1"
proof (cases "dev_main d")
  case Main_wifi_start
  let ?pc = "start_thread (prog_threads (dev_program d))"
  have "start_left (fst (wifi_start_step c (boot_wifi a) ?pc w)) \<le> start_left ?pc - 1"
    if "\<forall>ret. ?pc \<noteq> Start_returned ret" for w
    using that by (cases ?pc) (simp_all add: wifi_start_step_def Let_def split_beta)
  then show ?thesis using Main_wifi_start
    by (cases ?pc) (auto simp: main_left_def main_step_def Let_def program_step_def split_beta)
qed (auto simp: main_left_def main_step_def Let_def split_beta start_left_le
    intro: order_trans [OF start_left_le(2)])

lemma program_turn_left: "main_left (device_step c Q a (Program_turn ev) d) = main_left d"
proof -
  have "start_thread (prog_threads (program_step c Q ev (dev_program d))) =
      start_thread (prog_threads (dev_program d))"
    if "can_run T (prog_threads (dev_program d)) ev" for T
    using that
    by (cases ev rule: program_event.exhaust; auto simp: can_run_def wifi_can_run_def program_step_def
        split_beta Let_def split: wifi_run_event.splits ready_pc.splits)
  then show ?thesis by (cases "dev_main d") (auto simp: main_left_def)
qed

fun main_turns :: "device_event list \<Rightarrow> nat" where
  "main_turns [] = 0"
| "main_turns (Main_turn _ # es) = Suc (main_turns es)"
| "main_turns (Program_turn _ # es) = main_turns es"

lemma main_left_run: "main_left (fold (device_step c Q a) es d) \<le> main_left d - main_turns es"
proof (induction es arbitrary: d)
  case Nil
  then show ?case by simp
next
  case (Cons e es)
  show ?case
  proof (cases e)
    case (Main_turn now)
    then show ?thesis using Cons.IH [of "main_step c Q a now d"] main_step_left [of c Q a now d] by simp
  next
    case (Program_turn ev)
    then show ?thesis using Cons.IH [of "device_step c Q a e d"] program_turn_left [of c Q a ev d]
      by (simp del: device_step.simps)
  qed
qed

lemma left_none: "main_left d = 0 \<Longrightarrow> \<exists>ret. dev_main d = Main_returned ret"
  by (cases "dev_main d") (simp_all add: main_left_def)

section \<open>What start-up does\<close>

text \<open>
  C32: Start-up degrades gracefully, whatever the other threads do meanwhile. \<open>main\<close> returns within
  15 of its steps: 0 if there is a serial port, whatever the Wi-Fi answers, else the error of
  \<open>uart_nmea_start\<close>. The statically defined threads (dispatcher, station retry, statistics) exist
  from the start; besides them there is never a thread that is not wanted, and when \<open>main\<close> has
  returned all that are wanted exist: the LED's if it is enabled and its strip is ready, and with a
  serial port the UART's and those of the server, the client and the web app as configured. Without
  a serial port no call into the network management is ever made, also not by the retry thread, and
  the server, the client, the web app and the Wi-Fi manager stay as they were.
\<close>

theorem boot_degrades:
  assumes "d = device_run c Q a q0 g es"
  shows "set static_threads \<subseteq> set (dev_threads d) \<and> set (dev_threads d) \<subseteq> {t. thread_wanted c a t} \<and>
    (15 \<le> main_turns es \<longrightarrow>
       dev_main d = Main_returned (if boot_uart_ready a then success else failure ENODEV) \<and>
       set (dev_threads d) = {t. thread_wanted c a t}) \<and>
    (\<not> boot_uart_ready a \<longrightarrow>
       dev_calls d = [] \<and> prog_wifi (dev_program d) = wifi_storage \<and>
       prog_server (dev_program d) = server_storage c \<and>
       prog_client (dev_program d) = client_storage \<and> dev_web d = web_storage)"
proof -
  have inv: "boot_inv c a d" unfolding assms by (rule device_boot_inv)
  note exist = boot_invD(2) [OF inv]
  have "main_left d \<le> 15 - main_turns es"
    using main_left_run [of c Q a es "device_start c Q q0 g"] unfolding assms device_run_def
    by (simp add: main_left_def device_start_def Let_def)
  then have returned: "\<exists>ret. dev_main d = Main_returned ret" if "15 \<le> main_turns es"
    using that by (intro left_none) simp
  have "thread_step t \<le> 8" for t by (cases t) simp_all
  then have "set (dev_threads d) = {t. thread_wanted c a t}" if "15 \<le> main_turns es"
    using returned [OF that] exist by auto
  moreover have "dev_main d = Main_returned (if boot_uart_ready a then success else failure ENODEV)"
    if "15 \<le> main_turns es"
    using returned [OF that] inv by (auto simp: boot_inv_def)
  moreover have "network_quiet d \<and> untouched c d" if "\<not> boot_uart_ready a"
    using inv that by (simp add: boot_inv_def)
  ultimately show ?thesis
    using exist by (auto simp: static_threads_def network_quiet_def untouched_def)
qed

definition no_uart_answers :: boot_answers where
  "no_uart_answers =
     \<lparr>boot_has_strip = True, boot_strip_ready = False, boot_uart_ready = False,
      boot_wifi = \<lparr>answer_pton = (\<lambda>_. None), answer_ifs = demo_ifs, answer_net = (\<lambda>_. success),
        answer_random = (1, 2, 3), answer_sap = Some 0, answer_sta = Some 1\<rparr>\<rparr>"

theorem boot_degrades_witness:
  "let d = device_run uart_config ref_msgq no_uart_answers (0, []) (replicate 32 0)
         (replicate 15 (Main_turn 0) @ replicate 9 (Program_turn (Ev_wifi (Retry_turn (\<lambda>_. success)))))
   in dev_main d = Main_returned (failure ENODEV) \<and> dev_calls d = [] \<and> Led_thread \<notin> set (dev_threads d)"
proof -
  let ?es = "replicate 15 (Main_turn 0) @ replicate 9 (Program_turn (Ev_wifi (Retry_turn (\<lambda>_. success))))"
  have "15 \<le> main_turns ?es" by (simp add: numeral_eq_Suc)
  moreover have "\<not> boot_uart_ready no_uart_answers" "\<not> thread_wanted uart_config no_uart_answers Led_thread"
    by (simp_all add: no_uart_answers_def)
  ultimately show ?thesis
    using boot_degrades [OF refl, where es = ?es and c = uart_config and Q = ref_msgq
        and a = no_uart_answers and ?q0.0 = "(0, [])" and g = "replicate 32 0"]
    by (auto simp: Let_def)
qed

end
