(* ===== verification/Unit_Tests.thy ===== *)
theory Unit_Tests
  imports Led_Policy Telemetry
begin

text \<open>
  The repository's own unit tests, \<open>tests/status_led_policy\<close> and \<open>tests/bridge_telemetry\<close>,
  run on the model: every assertion of every test holds of the definitions, evaluated in the kernel.
\<close>

section \<open>LED policy\<close>

definition UINT32_MAX :: u32 where
  "UINT32_MAX = - 1"

text \<open>The state after some calls on a zeroed object.\<close>

definition after :: "(status_led_policy_state \<Rightarrow> status_led_policy_state) list \<Rightarrow> status_led_policy_state" where
  "after calls = fold (\<lambda>f s. f s) calls zero_policy_state"

definition test_disconnected_is_steady_dim_red :: bool where
  "test_disconnected_is_steady_dim_red \<longleftrightarrow>
     status_led_policy_render_disconnected 0 = rgb STATUS_LED_DISCONNECTED_RED 0 0 \<and>
     status_led_policy_render_disconnected 5000 = rgb STATUS_LED_DISCONNECTED_RED 0 0"

definition test_connecting_is_dim_yellow_orange_pulse :: bool where
  "test_connecting_is_dim_yellow_orange_pulse \<longleftrightarrow>
     status_led_policy_render_base STATUS_LED_BASE_CONNECTING (STATUS_LED_CONNECTING_PERIOD_MS div 2) =
       rgb STATUS_LED_CONNECTING_RED_MAX STATUS_LED_CONNECTING_GREEN_MAX 0 \<and>
     status_led_policy_render_base STATUS_LED_BASE_CONNECTING 0 =
       rgb STATUS_LED_CONNECTING_RED_MIN STATUS_LED_CONNECTING_GREEN_MIN 0"

definition test_connected_is_dim_steady_green :: bool where
  "test_connected_is_dim_steady_green \<longleftrightarrow>
     status_led_policy_render_base STATUS_LED_BASE_CONNECTED 0 = rgb 0 STATUS_LED_CONNECTED_GREEN 0 \<and>
     status_led_policy_render_base STATUS_LED_BASE_CONNECTED 1000 = rgb 0 STATUS_LED_CONNECTED_GREEN 0"

definition test_nmea_frame_receipt_flashes_blue :: bool where
  "test_nmea_frame_receipt_flashes_blue \<longleftrightarrow>
     status_led_policy_render (after [status_led_policy_nmea_frame_received 1000]) 1000 =
       rgb 0 0 STATUS_LED_NMEA_ACTIVITY_BLUE"

definition test_nmea_frame_flash_expires_to_disconnected_base :: bool where
  "test_nmea_frame_flash_expires_to_disconnected_base \<longleftrightarrow>
     status_led_policy_render
       (after [status_led_policy_nmea_frame_received (1000 + STATUS_LED_NMEA_ACTIVITY_FLASH_MS - STATUS_LED_NMEA_ACTIVITY_FLASH_MS)])
       (1000 + STATUS_LED_NMEA_ACTIVITY_FLASH_MS) =
     rgb STATUS_LED_DISCONNECTED_RED 0 0"

definition test_nmea_frame_flash_expires_to_connecting_base :: bool where
  "test_nmea_frame_flash_expires_to_connecting_base \<longleftrightarrow>
     status_led_policy_render
       (after [status_led_policy_tcp_nmea_client_connecting True,
               status_led_policy_nmea_frame_received (STATUS_LED_CONNECTING_PERIOD_MS - STATUS_LED_NMEA_ACTIVITY_FLASH_MS)])
       STATUS_LED_CONNECTING_PERIOD_MS =
     rgb STATUS_LED_CONNECTING_RED_MIN STATUS_LED_CONNECTING_GREEN_MIN 0"

definition test_nmea_frame_flash_expires_to_connected_base :: bool where
  "test_nmea_frame_flash_expires_to_connected_base \<longleftrightarrow>
     status_led_policy_render
       (after [status_led_policy_tcp_nmea_session_started,
               status_led_policy_nmea_frame_received 1000])
       (1000 + STATUS_LED_NMEA_ACTIVITY_FLASH_MS) =
     rgb 0 STATUS_LED_CONNECTED_GREEN 0"

definition test_nmea_frame_forwarded_flashes_white :: bool where
  "test_nmea_frame_forwarded_flashes_white \<longleftrightarrow>
     status_led_policy_render (after [status_led_policy_nmea_frame_forwarded 1000]) 1000 =
       rgb STATUS_LED_NMEA_FORWARDED_WHITE STATUS_LED_NMEA_FORWARDED_WHITE STATUS_LED_NMEA_FORWARDED_WHITE"

definition test_nmea_frame_forwarded_flash_wins_over_receipt_flash :: bool where
  "test_nmea_frame_forwarded_flash_wins_over_receipt_flash \<longleftrightarrow>
     status_led_policy_render
       (after [status_led_policy_nmea_frame_received 1000,
               status_led_policy_nmea_frame_forwarded 1000])
       1000 =
     rgb STATUS_LED_NMEA_FORWARDED_WHITE STATUS_LED_NMEA_FORWARDED_WHITE STATUS_LED_NMEA_FORWARDED_WHITE"

definition test_nmea_frame_forwarded_flash_expires_to_connected_base :: bool where
  "test_nmea_frame_forwarded_flash_expires_to_connected_base \<longleftrightarrow>
     status_led_policy_render
       (after [status_led_policy_tcp_nmea_session_started,
               status_led_policy_nmea_frame_forwarded 1000])
       (1000 + STATUS_LED_NMEA_ACTIVITY_FLASH_MS) =
     rgb 0 STATUS_LED_CONNECTED_GREEN 0"

definition test_nmea_send_failure_flashes_red :: bool where
  "test_nmea_send_failure_flashes_red \<longleftrightarrow>
     status_led_policy_render (after [status_led_policy_nmea_send_failed 1000]) 1000 =
       rgb STATUS_LED_NMEA_ERROR_RED 0 0"

definition test_nmea_send_failure_flash_expires_to_connecting_base :: bool where
  "test_nmea_send_failure_flash_expires_to_connecting_base \<longleftrightarrow>
     status_led_policy_render
       (after [status_led_policy_tcp_nmea_client_connecting True,
               status_led_policy_tcp_nmea_session_started,
               status_led_policy_nmea_send_failed (STATUS_LED_CONNECTING_PERIOD_MS - STATUS_LED_NMEA_ACTIVITY_FLASH_MS),
               status_led_policy_tcp_nmea_session_ended])
       STATUS_LED_CONNECTING_PERIOD_MS =
     rgb STATUS_LED_CONNECTING_RED_MIN STATUS_LED_CONNECTING_GREEN_MIN 0"

definition test_nmea_send_failure_flash_expires_to_connected_base :: bool where
  "test_nmea_send_failure_flash_expires_to_connected_base \<longleftrightarrow>
     status_led_policy_render
       (after [status_led_policy_tcp_nmea_session_started,
               status_led_policy_tcp_nmea_session_started,
               status_led_policy_nmea_send_failed 1000,
               status_led_policy_tcp_nmea_session_ended])
       (1000 + STATUS_LED_NMEA_ACTIVITY_FLASH_MS) =
     rgb 0 STATUS_LED_CONNECTED_GREEN 0"

definition test_flash_window_survives_elapsed_time_wrap :: bool where
  "test_flash_window_survives_elapsed_time_wrap \<longleftrightarrow>
     status_led_policy_render
       (after [status_led_policy_nmea_frame_received (UINT32_MAX - STATUS_LED_NMEA_ACTIVITY_FLASH_MS div 2)])
       0 =
     rgb 0 0 STATUS_LED_NMEA_ACTIVITY_BLUE"

definition test_inactive_zero_deadline_does_not_flash_after_time_wrap :: bool where
  "test_inactive_zero_deadline_does_not_flash_after_time_wrap \<longleftrightarrow>
     status_led_policy_render (after []) UINT32_MAX =
       rgb STATUS_LED_DISCONNECTED_RED 0 0"

definition test_active_session_drives_connected_state :: bool where
  "test_active_session_drives_connected_state \<longleftrightarrow>
     status_led_policy_base_state (after []) = STATUS_LED_BASE_DISCONNECTED \<and>
     status_led_policy_base_state
       (after [status_led_policy_tcp_nmea_session_started]) =
       STATUS_LED_BASE_CONNECTED"

definition test_outbound_client_retry_drives_connecting_state :: bool where
  "test_outbound_client_retry_drives_connecting_state \<longleftrightarrow>
     status_led_policy_base_state (after []) = STATUS_LED_BASE_DISCONNECTED \<and>
     status_led_policy_base_state
       (after [status_led_policy_tcp_nmea_client_connecting True]) =
       STATUS_LED_BASE_CONNECTING \<and>
     status_led_policy_base_state
       (after [status_led_policy_tcp_nmea_client_connecting True,
               status_led_policy_tcp_nmea_client_connecting False]) =
       STATUS_LED_BASE_DISCONNECTED"

definition test_connected_state_wins_over_connecting_state :: bool where
  "test_connected_state_wins_over_connecting_state \<longleftrightarrow>
     status_led_policy_base_state
       (after [status_led_policy_tcp_nmea_client_connecting True,
               status_led_policy_tcp_nmea_session_started]) =
       STATUS_LED_BASE_CONNECTED \<and>
     status_led_policy_base_state
       (after [status_led_policy_tcp_nmea_client_connecting True,
               status_led_policy_tcp_nmea_session_started,
               status_led_policy_tcp_nmea_session_ended]) =
       STATUS_LED_BASE_CONNECTING"

definition test_overlapping_sessions_disconnect_after_last_end :: bool where
  "test_overlapping_sessions_disconnect_after_last_end \<longleftrightarrow>
     status_led_policy_base_state
       (after [status_led_policy_tcp_nmea_session_started,
               status_led_policy_tcp_nmea_session_started,
               status_led_policy_tcp_nmea_session_ended]) =
       STATUS_LED_BASE_CONNECTED \<and>
     status_led_policy_base_state
       (after [status_led_policy_tcp_nmea_session_started,
               status_led_policy_tcp_nmea_session_started,
               status_led_policy_tcp_nmea_session_ended,
               status_led_policy_tcp_nmea_session_ended]) =
       STATUS_LED_BASE_DISCONNECTED"

definition test_session_end_without_active_session_stays_disconnected :: bool where
  "test_session_end_without_active_session_stays_disconnected \<longleftrightarrow>
     status_led_policy_base_state
       (after [status_led_policy_tcp_nmea_session_ended]) =
       STATUS_LED_BASE_DISCONNECTED"

definition status_led_policy_suite :: "bool list" where
  "status_led_policy_suite =
     [test_disconnected_is_steady_dim_red,
      test_connecting_is_dim_yellow_orange_pulse,
      test_connected_is_dim_steady_green,
      test_nmea_frame_receipt_flashes_blue,
      test_nmea_frame_flash_expires_to_disconnected_base,
      test_nmea_frame_flash_expires_to_connecting_base,
      test_nmea_frame_flash_expires_to_connected_base,
      test_nmea_frame_forwarded_flashes_white,
      test_nmea_frame_forwarded_flash_wins_over_receipt_flash,
      test_nmea_frame_forwarded_flash_expires_to_connected_base,
      test_nmea_send_failure_flashes_red,
      test_nmea_send_failure_flash_expires_to_connecting_base,
      test_nmea_send_failure_flash_expires_to_connected_base,
      test_flash_window_survives_elapsed_time_wrap,
      test_inactive_zero_deadline_does_not_flash_after_time_wrap,
      test_active_session_drives_connected_state,
      test_outbound_client_retry_drives_connecting_state,
      test_connected_state_wins_over_connecting_state,
      test_overlapping_sessions_disconnect_after_last_end,
      test_session_end_without_active_session_stays_disconnected]"

section \<open>Bridge telemetry\<close>

definition base_inputs :: bridge_telemetry_inputs where
  "base_inputs =
     \<lparr>i_uart_bytes_rx = 0, i_uart_lines_rx = 0, i_uart_overlong_lines = 0, i_bridge_frames_in = 0,
      i_bridge_ingest_dropped_oldest = 0, i_bridge_sink_dropped_oldest = 0,
      i_bridge_publish_no_sinks = 0, i_bridge_publish_invalid = 0, i_bridge_publish_oversize = 0,
      i_tcp_nmea_active_sessions = 0, i_tcp_server_active_clients = 0,
      i_tcp_server_max_clients = 3, i_sta_ready = False\<rparr>"

definition garbage_snapshot :: bridge_telemetry_snapshot where
  "garbage_snapshot = snapshot_of telemetry_storage (base_inputs\<lparr>i_sta_ready := True\<rparr>) 77"

text \<open>The snapshot after building some with the same zeroed state; the object is not initialised.\<close>

definition last_snapshot :: "(bridge_telemetry_inputs \<times> int) list \<Rightarrow> bridge_telemetry_snapshot" where
  "last_snapshot polls =
     the (snd (fold (\<lambda>(inputs, now_ms) (state, snapshot).
       bridge_telemetry_build_snapshot state (Some inputs) now_ms snapshot)
       polls (Some telemetry_storage, Some garbage_snapshot)))"

definition test_active_tcp_session_drives_connected_state :: bool where
  "test_active_tcp_session_drives_connected_state \<longleftrightarrow>
     (let x = last_snapshot [((base_inputs\<lparr>i_tcp_nmea_active_sessions := 1\<rparr>), 0)]
      in connection_state x = BRIDGE_TELEMETRY_NMEA_CONNECTED)"

definition test_no_tcp_session_drives_disconnected_state :: bool where
  "test_no_tcp_session_drives_disconnected_state \<longleftrightarrow>
     (let x = last_snapshot [(base_inputs, 0)]
      in connection_state x = BRIDGE_TELEMETRY_NMEA_DISCONNECTED)"

definition test_input_stays_active_inside_frame_window :: bool where
  "test_input_stays_active_inside_frame_window \<longleftrightarrow>
     (let x = last_snapshot [((base_inputs\<lparr>i_bridge_frames_in := 1\<rparr>), 1000), ((base_inputs\<lparr>i_bridge_frames_in := 1\<rparr>), 1000 + BRIDGE_TELEMETRY_NMEA_INPUT_WINDOW_MS)]
      in input_state x = BRIDGE_TELEMETRY_NMEA_INPUT_ACTIVE)"

definition test_input_goes_idle_after_frame_window :: bool where
  "test_input_goes_idle_after_frame_window \<longleftrightarrow>
     (let x = last_snapshot [((base_inputs\<lparr>i_bridge_frames_in := 1\<rparr>), 1000), ((base_inputs\<lparr>i_bridge_frames_in := 1\<rparr>), 1001 + BRIDGE_TELEMETRY_NMEA_INPUT_WINDOW_MS)]
      in input_state x = BRIDGE_TELEMETRY_NMEA_INPUT_IDLE)"

definition test_new_frame_reactivates_input_state :: bool where
  "test_new_frame_reactivates_input_state \<longleftrightarrow>
     (let x = last_snapshot [(base_inputs, 0), ((base_inputs\<lparr>i_bridge_frames_in := 1\<rparr>), 9000)]
      in input_state x = BRIDGE_TELEMETRY_NMEA_INPUT_ACTIVE)"

definition test_warnings_exclude_publish_no_sinks :: bool where
  "test_warnings_exclude_publish_no_sinks \<longleftrightarrow>
     (let x = last_snapshot [((base_inputs\<lparr>i_bridge_publish_no_sinks := 10\<rparr>), 0)]
      in \<not> data_quality (warnings x) \<and> \<not> frame_loss (warnings x))"

definition test_data_quality_warning :: bool where
  "test_data_quality_warning \<longleftrightarrow>
     (let x = last_snapshot [((base_inputs\<lparr>i_bridge_publish_invalid := 1\<rparr>), 0)]
      in data_quality (warnings x) \<and> \<not> frame_loss (warnings x))"

definition test_frame_loss_warning :: bool where
  "test_frame_loss_warning \<longleftrightarrow>
     (let x = last_snapshot [((base_inputs\<lparr>i_bridge_sink_dropped_oldest := 1\<rparr>), 0)]
      in \<not> data_quality (warnings x) \<and> frame_loss (warnings x))"

definition bridge_telemetry_suite :: "bool list" where
  "bridge_telemetry_suite =
     [test_active_tcp_session_drives_connected_state,
      test_no_tcp_session_drives_disconnected_state,
      test_input_stays_active_inside_frame_window,
      test_input_goes_idle_after_frame_window,
      test_new_frame_reactivates_input_state,
      test_warnings_exclude_publish_no_sinks,
      test_data_quality_warning,
      test_frame_loss_warning]"

section \<open>The suites pass\<close>

lemma status_led_policy_suite_passes: "list_all (\<lambda>t. t) status_led_policy_suite"
  by code_simp

lemma bridge_telemetry_suite_passes: "list_all (\<lambda>t. t) bridge_telemetry_suite"
  by code_simp

end
