(* ===== verification/Spec2Isabelle.thy ===== *)
theory Spec2Isabelle
  imports Bridge_Properties Led_Policy_Facts Status_Led_Facts Uart_Facts Sessions_Properties
    Sessions_Delivery Wifi_Facts Client_Facts Program_Properties Program_Status Program_Wifi
    Telemetry_Facts Web_Facts Dns_Sd Startup_Facts Unit_Tests
begin

text \<open>
  A verification development of the ESP NMEA bridge: firmware for an ESP32-C6 under Zephyr that
  reads NMEA-0183 sentences from a serial port and forwards them over TCP, with a Wi-Fi manager, a
  status LED and a small web page. The C code is under \<open>src/src\<close>; this file imports every theory.

  The program and its parts. \<open>uart_nmea.c\<close> polls the serial port in a thread, assembles lines and
  publishes each as a frame. \<open>nmea_bridge.c\<close> queues published frames; its dispatcher thread copies
  each into the queue of every open sink. A session (\<open>tcp_nmea_session.c\<close>) opens a sink, takes its
  frames and sends them to one peer. The sessions run in the threads of \<open>tcp_nmea_server.c\<close>, one
  per accepted connection, and in the thread of \<open>tcp_nmea_client.c\<close>, which connects to a configured
  host or to the station's gateway as \<open>wifi_manager.c\<close> learns it. Sessions, serial thread and
  client report to \<open>status_led.c\<close>, whose thread renders \<open>status_led_policy.c\<close>.
  \<open>bridge_telemetry.c\<close> collects counters from all of them for \<open>web_app.c\<close>. \<open>nmea_dns_sd.c\<close>
  advertises the listeners and \<open>main.c\<close> starts everything.

  How the model is built. The static variables of a file are a record; a function is a definition
  on that record with the name it has in C, which returns its result and the new state; \<open>errno\<close>
  values are the left side of a sum. Counters are machine words of their width, so they wrap; a
  \<open>size_t\<close> that the code bounds is a natural number. A thread is a datatype of program points
  (\<open>session_pc\<close>, \<open>server_pc\<close>, \<open>outbound_pc\<close>, \<open>retry_pc\<close>, \<open>web_pc\<close>, \<open>main_pc\<close>) with a step
  function; a run is a list of steps of all threads in any order, so a statement about every run is
  one about every interleaving of the steps. What sockets, drivers, network management and
  uninitialised locals give are arguments of the step, again arbitrary.

  What a step is. A critical section of a mutex is one step, and so is one operation on the message
  queues, on an atomic variable or on one shared object. The station's flags in \<open>wifi_manager.c\<close>
  have no lock: for the event handlers and for the threads that ask whether the station is ready
  every single read and write of a flag is a step (\<open>mark_step\<close>, \<open>ready_step\<close>, \<open>handler_step\<close>). A
  loop over a socket may be left after any call: a step of a session or of the web server that is
  in its \<open>send_all\<close> makes some of the calls and keeps what they have sent (\<open>sess_sent\<close>, \<open>sess_wire\<close>).
  Coarser are these: a byte of the serial input is taken to its end in one step, with the
  publishing and the reports it leads to; the last call of a send and the LED report that follows it
  are one step; the retry thread's steps go from one sleep, request or write of
  \<open>sta_connect_requested\<close> to the next, with the reads of a condition in one; one round of the LED
  thread is a step. No other thread writes what these steps read twice, but for the retry thread's
  conditions and its back-off, about which only runs of that thread on its own and its race with a
  handler are stated.

  Theories, in order of import.
  \<^item> \<open>Prelude\<close>: integer widths, error numbers, lists, and the interfaces that several components
    implement: \<open>invariant_machine\<close>, \<open>doubling_backoff\<close>, \<open>slot_table\<close>. \<open>Config\<close>: the options of
    \<open>Kconfig\<close> with ranges and dependencies, and the \<open>BUILD_ASSERT\<close>.
  \<^item> \<open>Bridge\<close>: \<open>nmea_bridge.c\<close>, over the interface \<open>kmsgq\<close> of Zephyr's message queue with the
    laws its documentation gives; \<open>ref_msgq\<close> is the bounded list that shows them satisfiable.
    \<open>Bridge_Facts\<close>: each operation and the well-formedness it keeps, in the locale
    \<open>bridge_on_queue\<close>; \<open>drop_oldest_buffer\<close> is the abstract queue that \<open>put_drop_oldest\<close> refines.
    \<open>Bridge_Trace\<close>: runs with the histories of frames. \<open>Bridge_Properties\<close>: order, completeness
    and the accounting of losses.
  \<^item> \<open>Led_Policy\<close>, \<open>Status_Led\<close> and their facts: the colours under 32-bit milliseconds, the thread
    that drives the strip and its retries.
  \<^item> \<open>Uart\<close>, \<open>Uart_Facts\<close>: the serial thread byte by byte, compared with cutting the input into
    lines.
  \<^item> \<open>Sockets\<close>: the loop that sends a whole buffer (locale \<open>transmit_loop\<close>), which the sessions and
    the web server both interpret. \<open>Session\<close>, \<open>Session_Facts\<close>: one session.
  \<^item> \<open>Sessions\<close>: the data path, from the serial thread over the dispatcher to any number of sessions.
    \<open>Sessions_Facts\<close>, \<open>Sessions_Inv\<close>: its invariant, that ties every session to the history of
    its sink and the counters to the program points. \<open>Sessions_Properties\<close>: what sockets receive.
    \<open>Sessions_Delivery\<close>: a line does get through.
  \<^item> \<open>Server\<close>, \<open>Wifi\<close>, \<open>Client\<close> and their facts: the remaining network threads. \<open>Wifi_Flags\<close>: the
    invariant of the station's flags, with what threads at a program point are about to do.
  \<^item> \<open>Program\<close>: all threads together. \<open>Program_Facts\<close>, \<open>Program_Fds\<close>, \<open>Program_Threads\<close>: the
    invariants of its runs (threads and sessions fit, descriptors, slots, connecting flag).
    \<open>Program_Properties\<close>, \<open>Program_Status\<close>, \<open>Program_Wifi\<close>: the statements about the whole program.
  \<^item> \<open>Telemetry\<close>, \<open>Strings\<close>, \<open>Web\<close> and their facts: the snapshot, the C strings, the web server; its
    replies are shown to refine a function from the request to the reply.
  \<^item> \<open>Dns_Sd\<close>: the advertised services. \<open>Startup\<close>: \<open>main\<close>, step by step while the threads that
    exist already run, and the statistics thread. \<open>Startup_Facts\<close>: from the first step of \<open>main\<close> on
    every state of the device is one of a run of \<open>Program\<close> from its start (\<open>device_run_program\<close>), so
    that what is shown of every run holds during start-up and afterwards.
  \<^item> \<open>Unit_Tests\<close>: the repository's own test cases, evaluated on the model.

  What is shown. From end to end: a peer receives whole lines of the serial input, in order, and
  nothing else, up to a part of one line that is being sent or whose sending failed; a line that
  arrives while a session waits gets through in three steps; no connection is turned away for want
  of a sink, no socket is lost or closed twice; LED and status page say what the threads are doing;
  the station's flags agree as long as no handler clears them between another thread's look at the
  address table and its writes. For each component: the behaviour of its operations on every branch,
  the order, loss and back-off they promise, and the round trip of the JSON text. Where the code
  does not do what it means to, the behaviour is stated as it is: a flash that returns after 24.8
  days, a lost line after one that is exactly too long, Wi-Fi retries that stop after a race, a
  disconnect that is overwritten, a thread slot reused too early, a body sent after a cut header, an
  input state dated by polls.

  Bounds and fuel. The ranges of \<open>Kconfig\<close> (\<open>config_ok\<close>) are the only bounds used: at most 9 sinks
  and 9 session threads, frames of at most 512 bytes, which fit their 16-bit length. A loop over a
  socket takes the list of the answers its calls get; when the list ends first, the thread is still
  in the loop, and \<open>send_all\<close>, which is the loop as a whole, has the result \<open>None\<close>.
  \<open>send_all_exact\<close>, \<open>http_request_served\<close> and \<open>line_gets_through\<close> show that it ends as soon as as
  many calls make progress as there are bytes. A handler with no other thread in between is eight
  steps of its machine (\<open>handler_ends\<close>: it has then returned). \<open>main\<close> returns within 15 steps.
  All other loops are structural or have a termination proof. Statements with counters hold modulo
  2^32 unless they say otherwise.

  Not modelled. Logging; thread stacks and time slices, since runs are arbitrary interleavings;
  priorities, but for \<open>main\<close> having the highest, so that \<open>nmea_bridge_init\<close> comes before everything
  else; Zephyr itself (message queues, sockets, Wi-Fi and DHCP, drivers, the DNS-SD responder),
  which is a parameter; the contents of the web page's files, which are a parameter, and its
  JavaScript, which runs in the browser; the build files and the board definition. The handlers of
  network events are called by one thread, one after the other, as Zephyr does. The counters for the
  web page are taken between two steps of a run, while the code reads the components one after
  the other. Of the web server's thread only its question to the Wi-Fi manager is a step of
  \<open>Program\<close>, since it otherwise only reads the other components; its own steps are in \<open>Web\<close>. The
  statistics thread only reads counters, and is no step of \<open>Program\<close>.
\<close>

end
